theory Spec2Isabelle
  imports Complex_Main
begin

section \<open>Data model of the deposit tracking service\<close>

text \<open>
  The service keeps its state in five tables, reached through repositories: deposits,
  wallets, tokens, wallet balances and system settings. A stored amount is modelled by
  the number its decimal string denotes; heights and block numbers are integers.
  The columns \<open>createdAt\<close> and \<open>updatedAt\<close> hold wall-clock time and are left out.
\<close>

type_synonym amount = rat

datatype error = Error string | TypeError string

record wallet =
  w_id :: string
  w_userId :: string
  w_address :: string
  w_blockchain :: string
  w_network :: string

record token =
  t_id :: string
  t_symbol :: string
  t_baseSymbol :: "string option"
  t_blockchain :: string
  t_contractAddress :: "string option"
  t_networkVersion :: string
  t_decimals :: nat
  t_isActive :: bool

record deposit =
  d_id :: nat
  d_userId :: string
  d_walletId :: string
  d_tokenId :: string
  d_txHash :: string
  d_amount :: amount
  d_blockchain :: string
  d_network :: string
  d_networkVersion :: string
  d_blockNumber :: "int option"
  d_status :: string
  d_confirmations :: int
  d_from :: string
  d_contractAddress :: "string option"
  d_blockHash :: string

text \<open>
  A wallet balance row is found by \<open>(userId, baseSymbol, type)\<close>, the columns the
  service selects on. \<open>depositSeq\<close> is the generator of the deposits' primary key.
\<close>

record db =
  deposits :: "deposit list"
  depositSeq :: nat
  wallets :: "wallet list"
  tokens :: "token list"
  walletBalances :: "(string \<times> string \<times> string) \<rightharpoonup> amount"
  systemSettings :: "string \<rightharpoonup> string"

subsection \<open>Control flow\<close>

text \<open>
  A \<open>for\<close> loop whose body may throw: the first error ends the loop, and the writes made
  until then stay.
\<close>

fun forEach :: "('a \<Rightarrow> 's \<Rightarrow> error option \<times> 's) \<Rightarrow> 'a list \<Rightarrow> 's \<Rightarrow> error option \<times> 's" where
  "forEach body [] s = (None, s)"
| "forEach body (x # xs) s =
     (case body x s of
        (Some e, s') \<Rightarrow> (Some e, s')
      | (None, s') \<Rightarrow> forEach body xs s')"

section \<open>Confirmation updater and ledger\<close>

text \<open>\<open>CONFIRMATION_BLOCKS\<close>: the required confirmations per chain key and network.\<close>

definition CONFIRMATION_BLOCKS :: "string \<Rightarrow> (string \<Rightarrow> nat option) option" where
  "CONFIRMATION_BLOCKS chainKey =
     (if chainKey = ''eth'' then Some (\<lambda>n. if n = ''mainnet'' then Some 12 else if n = ''testnet'' then Some 5 else None)
      else if chainKey = ''bsc'' then Some (\<lambda>n. if n = ''mainnet'' then Some 15 else if n = ''testnet'' then Some 6 else None)
      else if chainKey = ''btc'' then Some (\<lambda>n. if n = ''mainnet'' then Some 3 else if n = ''testnet'' then Some 2 else None)
      else if chainKey = ''trx'' then Some (\<lambda>n. if n = ''mainnet'' then Some 20 else if n = ''testnet'' then Some 10 else None)
      else if chainKey = ''xrp'' then Some (\<lambda>n. if n = ''mainnet'' then Some 4 else if n = ''testnet'' then Some 2 else None)
      else None)"

text \<open>\<open>CHAIN_KEYS[chain] || chain\<close>.\<close>

definition CHAIN_KEYS :: "string \<Rightarrow> string option" where
  "CHAIN_KEYS chain =
     (if chain = ''eth'' then Some ''eth''
      else if chain = ''bsc'' then Some ''bsc''
      else if chain = ''bitcoin'' then Some ''btc''
      else if chain = ''trx'' then Some ''trx''
      else if chain = ''xrp'' then Some ''xrp''
      else None)"

definition getChainKey :: "string \<Rightarrow> string" where
  "getChainKey blockchain = (case CHAIN_KEYS blockchain of Some k \<Rightarrow> k | None \<Rightarrow> blockchain)"

text \<open>
  \<open>updateWalletBalance\<close>: one storage transaction. It reads the token, then the spot
  balance row of the deposit's user under \<open>token.baseSymbol || token.symbol\<close>, and adds
  the amount. A missing token makes \<open>token.baseSymbol\<close> a TypeError; a missing row
  throws. Either way the transaction writes nothing.
\<close>

definition balanceKey :: "token \<Rightarrow> deposit \<Rightarrow> string \<times> string \<times> string" where
  "balanceKey tok dep =
     (d_userId dep,
      (case t_baseSymbol tok of
         Some b \<Rightarrow> if b = [] then t_symbol tok else b
       | None \<Rightarrow> t_symbol tok),
      ''spot'')"

text \<open>
  \<open>new Decimal(balance.balance).plus(deposit.amount)\<close> of the library \<open>decimal.js\<close>, whose
  configuration the service leaves at its defaults: \<open>precision\<close> 20 and \<open>rounding\<close>
  \<open>ROUND_HALF_UP\<close>. The constructor keeps every digit of its argument; \<open>plus\<close> gives the
  sum rounded to 20 significant digits, a tie going away from zero. \<open>digits10 n\<close> is the
  number of decimal digits of \<open>n\<close>, \<open>decimalExponent x\<close> the exponent of the leading digit
  of \<open>x\<close>, and \<open>finalise sd x\<close> rounds \<open>x\<close> to \<open>sd\<close> significant digits. The exponent
  limits of the library, \<open>9e15\<close> either way, are not modelled.
\<close>

function digits10 :: "int \<Rightarrow> nat" where
  "digits10 n = (if n < 10 then 1 else Suc (digits10 (n div 10)))"
  by pat_completeness auto
termination
  by (relation "measure nat") auto

declare digits10.simps [simp del]

definition pow10 :: "int \<Rightarrow> rat" where
  "pow10 e = (if 0 \<le> e then 10 ^ nat e else 1 / 10 ^ nat (- e))"

definition decimalExponent :: "rat \<Rightarrow> int" where
  "decimalExponent x =
     (if 1 \<le> \<bar>x\<bar> then int (digits10 \<lfloor>\<bar>x\<bar>\<rfloor>) - 1
      else - int (digits10 (\<lceil>1 / \<bar>x\<bar>\<rceil> - 1)))"

definition finalise :: "nat \<Rightarrow> rat \<Rightarrow> rat" where
  "finalise sd x =
     (if x = 0 then 0
      else let u = pow10 (decimalExponent x - (int sd - 1))
           in sgn x * of_int \<lfloor>\<bar>x\<bar> / u + 1 / 2\<rfloor> * u)"

definition decimalPlus :: "amount \<Rightarrow> amount \<Rightarrow> amount" where
  "decimalPlus x y = finalise 20 (x + y)"

definition updateWalletBalance :: "deposit \<Rightarrow> db \<Rightarrow> error + db" where
  "updateWalletBalance dep s =
     (case find (\<lambda>t. t_id t = d_tokenId dep) (tokens s) of
        None \<Rightarrow> Inl (TypeError ''Cannot read properties of null'')
      | Some tok \<Rightarrow>
          (case walletBalances s (balanceKey tok dep) of
             None \<Rightarrow> Inl (Error ''Wallet balance not found'')
           | Some bal \<Rightarrow>
               Inr (s\<lparr>walletBalances :=
                        (walletBalances s)(balanceKey tok dep \<mapsto> decimalPlus bal (d_amount dep))\<rparr>)))"

text \<open>\<open>depositRepository.update(id, {confirmations, status})\<close>.\<close>

definition depositUpdate :: "nat \<Rightarrow> int \<Rightarrow> string \<Rightarrow> db \<Rightarrow> db" where
  "depositUpdate i c st s =
     s\<lparr>deposits := map (\<lambda>r. if d_id r = i then r\<lparr>d_confirmations := c, d_status := st\<rparr> else r) (deposits s)\<rparr>"

text \<open>
  \<open>depositRepository.find\<close> with \<open>status: In(['pending', 'confirming'])\<close> and
  \<open>blockNumber: Not(IsNull())\<close>.
\<close>

definition findPending :: "string \<Rightarrow> string \<Rightarrow> db \<Rightarrow> deposit list" where
  "findPending chain network s =
     filter (\<lambda>d. d_blockchain d = chain \<and> d_network d = network
                \<and> (d_status d = ''pending'' \<or> d_status d = ''confirming'')
                \<and> d_blockNumber d \<noteq> None) (deposits s)"

text \<open>
  The body of the loop over the deposits found, the same text in
  \<open>updateEvmConfirmations\<close> and \<open>updateTronConfirmations\<close>. \<open>req\<close> is the outcome of
  reading the confirmation table: the read throws when the chain key has no entry, and
  is \<open>undefined\<close> (\<open>None\<close>) when the network has none, in which case \<open>>=\<close> is false.
\<close>

definition reaches :: "nat option \<Rightarrow> int \<Rightarrow> bool" where
  "reaches required confirmations =
     (case required of None \<Rightarrow> False | Some r \<Rightarrow> confirmations \<ge> int r)"

definition confirmStep :: "(error + nat option) \<Rightarrow> int \<Rightarrow> deposit \<Rightarrow> db \<Rightarrow> error option \<times> db" where
  "confirmStep req currentBlock dep s =
     (let confirmations = currentBlock - (case d_blockNumber dep of Some b \<Rightarrow> b | None \<Rightarrow> 0) in
      case req of
        Inl e \<Rightarrow> (Some e, s)
      | Inr required \<Rightarrow>
          (let s1 = depositUpdate (d_id dep) confirmations
                      (if reaches required confirmations then ''confirmed'' else ''confirming'') s in
           if reaches required confirmations \<and> d_status dep \<noteq> ''confirmed''
           then (case updateWalletBalance dep s1 of
                   Inl e \<Rightarrow> (Some e, s1)
                 | Inr s2 \<Rightarrow> (None, s2))
           else (None, s1)))"

text \<open>
  The \<open>try\<close> blocks of the two updaters: the required count is read inside the loop,
  \<open>CONFIRMATION_BLOCKS.trx[network]\<close> and \<open>CONFIRMATION_BLOCKS[chainKey][network]\<close>.
  The first component of the result is the error the \<open>catch\<close> clause logs.
\<close>

definition tronConfirmationLoop :: "string \<Rightarrow> int \<Rightarrow> db \<Rightarrow> error option \<times> db" where
  "tronConfirmationLoop network currentBlock s =
     forEach
       (confirmStep
          (case CONFIRMATION_BLOCKS ''trx'' of
             None \<Rightarrow> Inl (TypeError ''Cannot read properties of undefined'')
           | Some tbl \<Rightarrow> Inr (tbl network))
          currentBlock)
       (findPending ''trx'' network s) s"

definition evmConfirmationLoop :: "string \<Rightarrow> string \<Rightarrow> int \<Rightarrow> db \<Rightarrow> error option \<times> db" where
  "evmConfirmationLoop chain network currentBlock s =
     forEach
       (confirmStep
          (case CONFIRMATION_BLOCKS (getChainKey chain) of
             None \<Rightarrow> Inl (TypeError ''Cannot read properties of undefined'')
           | Some tbl \<Rightarrow> Inr (tbl network))
          currentBlock)
       (findPending chain network s) s"

text \<open>
  Both updaters catch whatever the loop throws and only log it, so they return the
  state reached.
\<close>

definition updateTronConfirmations :: "string \<Rightarrow> int \<Rightarrow> db \<Rightarrow> db" where
  "updateTronConfirmations network currentBlock s = snd (tronConfirmationLoop network currentBlock s)"

definition updateEvmConfirmations :: "string \<Rightarrow> string \<Rightarrow> int \<Rightarrow> db \<Rightarrow> db" where
  "updateEvmConfirmations chain network currentBlock s =
     snd (evmConfirmationLoop chain network currentBlock s)"

section \<open>Checkpoints\<close>

text \<open>
  \<open>String.prototype.toLowerCase\<close> on the ASCII letters; the names and addresses handled
  here are ASCII.
\<close>

definition toLowerChar :: "char \<Rightarrow> char" where
  "toLowerChar c =
     (let n = (of_char c :: nat) in if 65 \<le> n \<and> n \<le> 90 then char_of (n + 32) else c)"

definition toLowerCase :: "string \<Rightarrow> string" where
  "toLowerCase cs = map toLowerChar cs"

text \<open>
  \<open>blockNumber.toString()\<close> of an integer: its decimal digits, with a minus sign below
  zero. Heights are safe integers, which JavaScript prints this way.
\<close>

definition digitChar :: "nat \<Rightarrow> char" where
  "digitChar d = char_of (48 + d)"

function natToString :: "nat \<Rightarrow> string" where
  "natToString n = (if n < 10 then [digitChar n] else natToString (n div 10) @ [digitChar (n mod 10)])"
  by pat_completeness auto
termination
  by (relation "measure (\<lambda>n. n)") auto

declare natToString.simps [simp del]

definition numberToString :: "int \<Rightarrow> string" where
  "numberToString n = (if n < 0 then CHR ''-'' # natToString (nat (- n)) else natToString (nat n))"

text \<open>
  \<open>parseInt(string)\<close> with no radix: leading white space is dropped, then an optional
  sign is read, then \<open>0x\<close> or \<open>0X\<close> selects radix 16, then the longest run of digits
  of the radix is the value. No digit at all gives \<open>NaN\<close>, which is \<open>None\<close> here.
\<close>

definition isWhiteSpace :: "char \<Rightarrow> bool" where
  "isWhiteSpace c = ((of_char c :: nat) \<in> {9, 10, 11, 12, 13, 32})"

definition digitValue :: "char \<Rightarrow> nat option" where
  "digitValue c =
     (let n = (of_char c :: nat) in
      if 48 \<le> n \<and> n \<le> 57 then Some (n - 48)
      else if 97 \<le> n \<and> n \<le> 122 then Some (n - 87)
      else if 65 \<le> n \<and> n \<le> 90 then Some (n - 55)
      else None)"

definition isDigitOf :: "nat \<Rightarrow> char \<Rightarrow> bool" where
  "isDigitOf radix c = (case digitValue c of None \<Rightarrow> False | Some v \<Rightarrow> v < radix)"

definition parseDigits :: "nat \<Rightarrow> string \<Rightarrow> nat option" where
  "parseDigits radix cs =
     (let ds = takeWhile (isDigitOf radix) cs in
      if ds = [] then None
      else Some (foldl (\<lambda>a c. a * radix + (case digitValue c of Some v \<Rightarrow> v | None \<Rightarrow> 0)) 0 ds))"

definition parseUnsigned :: "string \<Rightarrow> nat option" where
  "parseUnsigned cs =
     (case cs of
        c0 # c1 # rest \<Rightarrow>
          if c0 = CHR ''0'' \<and> (c1 = CHR ''x'' \<or> c1 = CHR ''X'') then parseDigits 16 rest
          else parseDigits 10 cs
      | _ \<Rightarrow> parseDigits 10 cs)"

definition parseInt :: "string \<Rightarrow> int option" where
  "parseInt str =
     (case dropWhile isWhiteSpace str of
        [] \<Rightarrow> None
      | c # cs \<Rightarrow>
          if c = CHR ''-'' then map_option (\<lambda>n. - int n) (parseUnsigned cs)
          else if c = CHR ''+'' then map_option int (parseUnsigned cs)
          else map_option int (parseUnsigned (c # cs)))"

text \<open>
  \<open>getLastProcessedBlock\<close>: the value under the key, or 0 when the key has no row.
  The result is \<open>None\<close> when \<open>parseInt\<close> gives \<open>NaN\<close>.
\<close>

definition getLastProcessedBlock :: "string \<Rightarrow> string \<Rightarrow> db \<Rightarrow> int option" where
  "getLastProcessedBlock chain network s =
     (let chainKey = (if toLowerCase chain = ''bitcoin'' then ''btc'' else toLowerCase chain);
          key = ''last_processed_block_'' @ chainKey @ ''_'' @ network
      in case systemSettings s key of
           None \<Rightarrow> Some 0
         | Some v \<Rightarrow> parseInt v)"

text \<open>
  \<open>saveLastProcessedBlock\<close>: an upsert under the key, then the row is read back and
  compared; a mismatch throws.
\<close>

definition saveLastProcessedBlock :: "string \<Rightarrow> string \<Rightarrow> int \<Rightarrow> db \<Rightarrow> error option \<times> db" where
  "saveLastProcessedBlock chain network blockNumber s =
     (let chainKey = (if toLowerCase chain = ''bitcoin'' then ''btc'' else toLowerCase chain);
          key = ''last_processed_block_'' @ chainKey @ ''_'' @ network;
          s' = s\<lparr>systemSettings := (systemSettings s)(key \<mapsto> numberToString blockNumber)\<rparr>
      in case systemSettings s' key of
           None \<Rightarrow> (Some (Error ''Block save verification failed''), s')
         | Some v \<Rightarrow>
             if parseInt v = Some blockNumber then (None, s')
             else (Some (Error ''Block save verification failed''), s'))"

section \<open>Writing deposits\<close>

text \<open>
  The three columns that identify a deposit.
\<close>

definition depositTriple :: "deposit \<Rightarrow> string \<times> string \<times> string" where
  "depositTriple d = (d_txHash d, d_walletId d, d_tokenId d)"

text \<open>
  Modelled from the spec: the \<open>Deposit\<close> entity of \<open>../entities/deposit.entity\<close>, which
  declares the deposits table and its indexes, lies outside the service file. The spec
  gives the table \<open>deposits(id PK, ...)\<close> a unique index on \<open>(txHash, walletId, tokenId)\<close>.
  \<open>depositRepository.save\<close> of a new row is an insert, which draws the next primary key;
  under the index the insert of a second row with the same three values fails, and
  \<open>save\<close> throws. The service itself makes no lookup before it saves.
\<close>

definition depositSave :: "deposit \<Rightarrow> db \<Rightarrow> error option \<times> db" where
  "depositSave row s =
     (if depositTriple row \<in> set (map depositTriple (deposits s))
      then (Some (Error ''duplicate key value violates unique constraint''), s)
      else (None, s\<lparr>deposits := deposits s @ [row\<lparr>d_id := depositSeq s\<rparr>],
                      depositSeq := Suc (depositSeq s)\<rparr>))"

text \<open>\<open>walletRepository.find\<close> by blockchain and network.\<close>

definition findWallets :: "string \<Rightarrow> string \<Rightarrow> db \<Rightarrow> wallet list" where
  "findWallets chain network s =
     filter (\<lambda>w. w_blockchain w = chain \<and> w_network w = network) (wallets s)"

text \<open>What a call to a node gives: it throws, resolves to \<open>null\<close>, or resolves to a value.\<close>

datatype 'a reply = Throws error | Null | Reply 'a

section \<open>EVM chains\<close>

text \<open>
  A receipt log as \<open>contract.interface.parseLog\<close> reads it under \<open>ERC20_ABI\<close>: a
  \<open>Transfer(from, to, value)\<close> event, or a log the interface cannot parse.
\<close>

datatype evm_log = TransferLog string string int | OtherLog

record evm_tx =
  tx_hash :: string
  tx_to :: "string option"
  tx_from :: string
  tx_data :: "string option"
  tx_value :: int
  tx_blockNumber :: "int option"
  tx_blockHash :: string
  tx_wait :: "evm_log list reply"

record evm_block =
  eb_transactions :: "string list"

text \<open>The provider answers \<open>getTransaction\<close> per hash and attempt.\<close>

record evm_provider =
  evm_getBlock :: "int \<Rightarrow> evm_block reply"
  evm_getTransaction :: "string \<Rightarrow> nat \<Rightarrow> evm_tx reply"

text \<open>\<open>utils.formatUnits(value, decimals)\<close>: the value scaled down by \<open>10^decimals\<close>, exactly.\<close>

definition formatUnits :: "int \<Rightarrow> nat \<Rightarrow> amount" where
  "formatUnits v decimals = of_int v / 10 ^ decimals"

definition getTokenForTransaction :: "string \<Rightarrow> evm_tx \<Rightarrow> db \<Rightarrow> token option" where
  "getTokenForTransaction chain tx s =
     (case tx_to tx of
        None \<Rightarrow> None
      | Some to \<Rightarrow>
          if to = [] then None
          else if tx_data tx = None \<or> tx_data tx = Some [] \<or> tx_data tx = Some ''0x''
          then find (\<lambda>t. t_blockchain t = chain \<and> t_networkVersion t = ''NATIVE'' \<and> t_isActive t) (tokens s)
          else find (\<lambda>t. t_blockchain t = chain \<and> t_contractAddress t = Some (toLowerCase to) \<and> t_isActive t) (tokens s))"

definition isTransfer :: "evm_log \<Rightarrow> bool" where
  "isTransfer l = (case l of TransferLog f t v \<Rightarrow> True | OtherLog \<Rightarrow> False)"

text \<open>
  \<open>getTransactionAmount\<close>: every error is caught and gives \<open>null\<close>. For a token the
  first log of the receipt that parses as a \<open>Transfer\<close> gives the value; its recipient
  is not read.
\<close>

definition getTransactionAmount :: "evm_tx \<Rightarrow> token \<Rightarrow> amount option" where
  "getTransactionAmount tx tok =
     (if t_networkVersion tok = ''NATIVE'' then Some (formatUnits (tx_value tx) (t_decimals tok))
      else case t_contractAddress tok of
        None \<Rightarrow> None
      | Some addr \<Rightarrow>
          (case tx_wait tx of
             Throws e \<Rightarrow> None
           | Null \<Rightarrow> None
           | Reply logs \<Rightarrow>
               (case find isTransfer logs of
                  Some (TransferLog f t v) \<Rightarrow> Some (formatUnits v (t_decimals tok))
                | _ \<Rightarrow> None)))"

text \<open>
  \<open>processEvmTransaction\<close>: the wallet is looked up by the transaction's own \<open>to\<close>
  address, lowercased; a later wallet with the same lowercased address replaces an
  earlier one in the \<open>Map\<close>. Errors are caught and logged.
\<close>

definition processEvmTransaction :: "string \<Rightarrow> string \<Rightarrow> evm_tx \<Rightarrow> db \<Rightarrow> db" where
  "processEvmTransaction chain network tx s =
     (let walletMap = map_of (rev (map (\<lambda>w. (toLowerCase (w_address w), w)) (findWallets chain network s))) in
      case tx_to tx of
        None \<Rightarrow> s
      | Some to \<Rightarrow>
          if toLowerCase to = [] then s
          else case walletMap (toLowerCase to) of
            None \<Rightarrow> s
          | Some wallet \<Rightarrow>
              (case getTokenForTransaction chain tx s of
                 None \<Rightarrow> s
               | Some tok \<Rightarrow>
                   (case getTransactionAmount tx tok of
                      None \<Rightarrow> s
                    | Some amt \<Rightarrow>
                        snd (depositSave
                          \<lparr>d_id = 0, d_userId = w_userId wallet, d_walletId = w_id wallet,
                           d_tokenId = t_id tok, d_txHash = tx_hash tx, d_amount = amt,
                           d_blockchain = chain, d_network = network,
                           d_networkVersion = t_networkVersion tok,
                           d_blockNumber = tx_blockNumber tx, d_status = ''pending'',
                           d_confirmations = 0, d_from = tx_from tx,
                           d_contractAddress = t_contractAddress tok,
                           d_blockHash = tx_blockHash tx\<rparr> s))))"

text \<open>
  \<open>getEvmTransactionWithRetry\<close>, from attempt \<open>i\<close> on: the last failed attempt
  rethrows.
\<close>

function getEvmTransactionFrom :: "evm_provider \<Rightarrow> string \<Rightarrow> nat \<Rightarrow> nat \<Rightarrow> error + evm_tx option" where
  "getEvmTransactionFrom provider txHash retries i =
     (if i < retries
      then (case evm_getTransaction provider txHash i of
              Reply tx \<Rightarrow> Inr (Some tx)
            | Null \<Rightarrow> Inr None
            | Throws e \<Rightarrow> if i = retries - 1 then Inl e
                           else getEvmTransactionFrom provider txHash retries (Suc i))
      else Inr None)"
  by pat_completeness auto
termination
  by (relation "measure (\<lambda>(provider, txHash, retries, i). retries - i)") auto

declare getEvmTransactionFrom.simps [simp del]

definition getEvmTransactionWithRetry :: "evm_provider \<Rightarrow> string \<Rightarrow> error + evm_tx option" where
  "getEvmTransactionWithRetry provider txHash = getEvmTransactionFrom provider txHash 3 0"

text \<open>
  \<open>processEvmBlock\<close>: a block that is not found ends the call; an error of one
  transaction is logged and the loop goes on; then the checkpoint is saved. The function
  makes no call to \<open>updateEvmConfirmations\<close>.
\<close>

definition processEvmBlock :: "string \<Rightarrow> string \<Rightarrow> int \<Rightarrow> evm_provider \<Rightarrow> db \<Rightarrow> error option \<times> db" where
  "processEvmBlock chain network blockNumber provider s =
     (case evm_getBlock provider blockNumber of
        Throws e \<Rightarrow> (Some e, s)
      | Null \<Rightarrow> (None, s)
      | Reply block \<Rightarrow>
          saveLastProcessedBlock chain network blockNumber
            (fold (\<lambda>txHash s'.
                     case getEvmTransactionWithRetry provider txHash of
                       Inl e \<Rightarrow> s'
                     | Inr None \<Rightarrow> s'
                     | Inr (Some tx) \<Rightarrow> processEvmTransaction chain network tx s')
               (eb_transactions block) s))"

section \<open>Bitcoin\<close>

record btc_output =
  o_value :: amount
  o_addresses :: "string list option"

record btc_tx =
  btx_txid :: string
  btx_vout :: "btc_output list"
  btx_from :: "string option"
  btx_blockHeight :: "int option"
  btx_blockHash :: string

record btc_block =
  bb_tx :: "btc_tx list option"
  bb_height :: int
  bb_hash :: string

record btc_provider =
  btc_getBlockHeight :: "int reply"
  btc_getBlock :: "int \<Rightarrow> btc_block reply"

definition getBitcoinTokenId :: "db \<Rightarrow> error + string" where
  "getBitcoinTokenId s =
     (case find (\<lambda>t. t_symbol t = ''BTC'' \<and> t_networkVersion t = ''NATIVE'') (tokens s) of
        None \<Rightarrow> Inl (Error ''Bitcoin token not found in database'')
      | Some tok \<Rightarrow> Inr (t_id tok))"

text \<open>
  \<open>processBitcoinTransaction\<close>: one deposit per address of an output that is a wallet's.
  \<open>output.value\<close> is stored as printed. Errors are rethrown.
\<close>

definition processBitcoinAddress :: "string \<Rightarrow> string \<Rightarrow> btc_tx \<Rightarrow> btc_output \<Rightarrow> string \<Rightarrow> db \<Rightarrow> error option \<times> db" where
  "processBitcoinAddress chain network tx output address s =
     (if address \<in> set (map w_address (findWallets chain network s))
      then (case find (\<lambda>w. w_address w = address) (findWallets chain network s) of
              None \<Rightarrow> (None, s)
            | Some wallet \<Rightarrow>
                (case getBitcoinTokenId s of
                   Inl e \<Rightarrow> (Some e, s)
                 | Inr tokenId \<Rightarrow>
                     depositSave
                       \<lparr>d_id = 0, d_userId = w_userId wallet, d_walletId = w_id wallet,
                        d_tokenId = tokenId, d_txHash = btx_txid tx, d_amount = o_value output,
                        d_blockchain = chain, d_network = network, d_networkVersion = ''NATIVE'',
                        d_blockNumber = btx_blockHeight tx, d_status = ''pending'',
                        d_confirmations = 0,
                        d_from = (case btx_from tx of Some a \<Rightarrow> if a = [] then ''unknown'' else a
                                  | None \<Rightarrow> ''unknown''),
                        d_contractAddress = None, d_blockHash = btx_blockHash tx\<rparr> s))
      else (None, s))"

definition processBitcoinTransaction :: "string \<Rightarrow> string \<Rightarrow> btc_tx \<Rightarrow> db \<Rightarrow> error option \<times> db" where
  "processBitcoinTransaction chain network tx s =
     forEach
       (\<lambda>output. forEach (processBitcoinAddress chain network tx output)
                    (case o_addresses output of Some as \<Rightarrow> as | None \<Rightarrow> []))
       (btx_vout tx) s"

text \<open>
  \<open>processBitcoinBlock\<close>: a block without \<open>tx\<close> is skipped; otherwise its transactions
  are processed and the checkpoint is set to \<open>block.height\<close>. Errors are rethrown.
\<close>

definition processBitcoinBlock :: "string \<Rightarrow> string \<Rightarrow> btc_block \<Rightarrow> db \<Rightarrow> error option \<times> db" where
  "processBitcoinBlock chain network block s =
     (case bb_tx block of
        None \<Rightarrow> (None, s)
      | Some txs \<Rightarrow>
          (case forEach (processBitcoinTransaction chain network) txs s of
             (Some e, s') \<Rightarrow> (Some e, s')
           | (None, s') \<Rightarrow> saveLastProcessedBlock chain network (bb_height block) s'))"

text \<open>
  The header of the batch loop of \<open>checkBitcoinBlocks\<close>, with \<open>batchSize = 50\<close>: the pairs
  \<open>(height, endBlock)\<close> it runs through, from \<open>height\<close> up to \<open>currentHeight\<close>.
\<close>

definition batchSize :: int where
  "batchSize = 50"

function bitcoinBatches :: "int \<Rightarrow> int \<Rightarrow> (int \<times> int) list" where
  "bitcoinBatches height currentHeight =
     (if height \<le> currentHeight
      then (height, min (height + batchSize - 1) currentHeight)
             # bitcoinBatches (height + batchSize) currentHeight
      else [])"
  by pat_completeness auto
termination
  by (relation "measure (\<lambda>(height, currentHeight). nat (currentHeight - height + 1))")
    (auto simp: batchSize_def)

declare bitcoinBatches.simps [simp del]

text \<open>
  \<open>checkBitcoinBlocks\<close>: a block that is not found is skipped with \<open>continue\<close>; any error
  ends the tick and is rethrown. With \<open>NaN\<close> as the last processed block no loop runs,
  and a \<open>null\<close> height compares as 0. \<open>checkBitcoinRange\<close> is the part of the function
  after the height is known.
\<close>

definition checkBitcoinBlock :: "string \<Rightarrow> btc_provider \<Rightarrow> int \<Rightarrow> db \<Rightarrow> error option \<times> db" where
  "checkBitcoinBlock network provider blockNum s =
     (case btc_getBlock provider blockNum of
        Throws e \<Rightarrow> (Some e, s)
      | Null \<Rightarrow> (None, s)
      | Reply block \<Rightarrow> processBitcoinBlock ''bitcoin'' network block s)"

definition checkBitcoinRange :: "string \<Rightarrow> btc_provider \<Rightarrow> int \<Rightarrow> db \<Rightarrow> error option \<times> db" where
  "checkBitcoinRange network provider currentHeight s =
     (case getLastProcessedBlock ''bitcoin'' network s of
        None \<Rightarrow> (None, s)
      | Some lastProcessedBlock \<Rightarrow>
          forEach
            (\<lambda>(height, endBlock). forEach (checkBitcoinBlock network provider) [height..endBlock])
            (bitcoinBatches (lastProcessedBlock + 1) currentHeight) s)"

definition checkBitcoinBlocks :: "string \<Rightarrow> btc_provider option \<Rightarrow> db \<Rightarrow> error option \<times> db" where
  "checkBitcoinBlocks network prov s =
     (case prov of
        None \<Rightarrow> (None, s)
      | Some provider \<Rightarrow>
          (case btc_getBlockHeight provider of
             Throws e \<Rightarrow> (Some e, s)
           | Null \<Rightarrow> checkBitcoinRange network provider 0 s
           | Reply currentHeight \<Rightarrow> checkBitcoinRange network provider currentHeight s))"

section \<open>Tron\<close>

record tron_tx =
  ttx_txID :: string
  ttx_type :: "string option"
  ttx_to_address :: string
  ttx_owner_address :: string
  ttx_amount :: int
  ttx_asset_name :: "string option"

record tron_block =
  tb_transactions :: "tron_tx list option"
  tb_number :: int
  tb_blockID :: string

text \<open>
  The node answers \<open>getBlock\<close> per height and attempt. \<open>tron_fromHex\<close> is
  \<open>tronWeb.address.fromHex\<close>.
\<close>

record tron_web =
  tron_getCurrentBlock :: "int reply"
  tron_getBlock :: "int \<Rightarrow> nat \<Rightarrow> tron_block reply"
  tron_fromHex :: "string \<Rightarrow> string"

definition getTronToken :: "string \<Rightarrow> string option \<Rightarrow> db \<Rightarrow> token option" where
  "getTronToken contractType assetName s =
     (if contractType = ''TransferContract''
      then find (\<lambda>t. t_blockchain t = ''trx'' \<and> t_networkVersion t = ''NATIVE'' \<and> t_isActive t) (tokens s)
      else if contractType = ''TransferAssetContract'' \<and> assetName \<noteq> None \<and> assetName \<noteq> Some []
      then find (\<lambda>t. t_blockchain t = ''trx'' \<and> t_networkVersion t = ''TRC20''
                      \<and> Some (t_symbol t) = assetName \<and> t_isActive t) (tokens s)
      else None)"

text \<open>
  \<open>processTronBlock\<close>. The amount is
  \<open>(parameter.amount / Math.pow(10, token.decimals)).toString()\<close>, a division of
  double-precision numbers: \<open>numberDivide\<close> stands for it and is a parameter, since
  binary floating point is not modelled. The first error ends the loop over the
  transactions and is logged.
\<close>

definition processTronTransaction ::
  "(int \<Rightarrow> nat \<Rightarrow> amount) \<Rightarrow> tron_web \<Rightarrow> string \<Rightarrow> tron_block \<Rightarrow> tron_tx \<Rightarrow> db \<Rightarrow> error option \<times> db" where
  "processTronTransaction numberDivide tronWeb network block tx s =
     (if ttx_type tx = Some ''TransferContract'' \<or> ttx_type tx = Some ''TransferAssetContract''
      then
        (let toAddress = tron_fromHex tronWeb (ttx_to_address tx) in
         if toAddress \<in> set (map w_address (findWallets ''trx'' network s))
         then (case find (\<lambda>w. w_address w = toAddress) (findWallets ''trx'' network s) of
                 None \<Rightarrow> (Some (TypeError ''Cannot read properties of undefined''), s)
               | Some wallet \<Rightarrow>
                   (case getTronToken (case ttx_type tx of Some ty \<Rightarrow> ty | None \<Rightarrow> []) (ttx_asset_name tx) s of
                      None \<Rightarrow> (None, s)
                    | Some tok \<Rightarrow>
                        depositSave
                          \<lparr>d_id = 0, d_userId = w_userId wallet, d_walletId = w_id wallet,
                           d_tokenId = t_id tok, d_txHash = ttx_txID tx,
                           d_amount = numberDivide (ttx_amount tx) (t_decimals tok),
                           d_blockchain = ''trx'', d_network = network,
                           d_networkVersion = t_networkVersion tok,
                           d_blockNumber = Some (tb_number block), d_status = ''pending'',
                           d_confirmations = 0,
                           d_from = tron_fromHex tronWeb (ttx_owner_address tx),
                           d_contractAddress = t_contractAddress tok,
                           d_blockHash = tb_blockID block\<rparr> s))
         else (None, s))
      else (None, s))"

definition processTronBlock ::
  "(int \<Rightarrow> nat \<Rightarrow> amount) \<Rightarrow> tron_web \<Rightarrow> string \<Rightarrow> tron_block \<Rightarrow> db \<Rightarrow> db" where
  "processTronBlock numberDivide tronWeb network block s =
     snd (forEach (processTronTransaction numberDivide tronWeb network block)
            (case tb_transactions block of Some txs \<Rightarrow> txs | None \<Rightarrow> []) s)"

function getTronBlockFrom :: "tron_web \<Rightarrow> int \<Rightarrow> nat \<Rightarrow> nat \<Rightarrow> error + tron_block option" where
  "getTronBlockFrom tronWeb height maxRetries i =
     (if i < maxRetries
      then (case tron_getBlock tronWeb height i of
              Reply block \<Rightarrow> Inr (Some block)
            | Null \<Rightarrow> Inr None
            | Throws e \<Rightarrow> if i = maxRetries - 1 then Inl e
                           else getTronBlockFrom tronWeb height maxRetries (Suc i))
      else Inr None)"
  by pat_completeness auto
termination
  by (relation "measure (\<lambda>(tronWeb, height, maxRetries, i). maxRetries - i)") auto

declare getTronBlockFrom.simps [simp del]

definition getTronBlockWithRetry :: "tron_web \<Rightarrow> int \<Rightarrow> nat \<Rightarrow> error + tron_block option" where
  "getTronBlockWithRetry tronWeb height maxRetries = getTronBlockFrom tronWeb height maxRetries 0"

text \<open>
  \<open>checkTronBlocks\<close>: with \<open>batchSize = 5\<close> the loop runs over the heights from
  \<open>startBlock\<close> to \<open>Math.min(startBlock + batchSize, currentBlockNumber)\<close>, both
  included. Whatever a height throws is logged and the loop goes on with the next one.
\<close>

definition tronBatch :: "int \<Rightarrow> int \<Rightarrow> int list" where
  "tronBatch lastProcessedBlock currentBlockNumber =
     (let startBlock = lastProcessedBlock + 1;
          endBlock = min (startBlock + 5) currentBlockNumber
      in [startBlock..endBlock])"

definition checkTronBlock ::
  "(int \<Rightarrow> nat \<Rightarrow> amount) \<Rightarrow> tron_web \<Rightarrow> string \<Rightarrow> int \<Rightarrow> db \<Rightarrow> db" where
  "checkTronBlock numberDivide tronWeb network height s =
     (case getTronBlockWithRetry tronWeb height 3 of
        Inl e \<Rightarrow> s
      | Inr None \<Rightarrow> s
      | Inr (Some block) \<Rightarrow>
          snd (saveLastProcessedBlock ''trx'' network height
                 (updateTronConfirmations network height
                    (processTronBlock numberDivide tronWeb network block s))))"

definition checkTronBlocks ::
  "(int \<Rightarrow> nat \<Rightarrow> amount) \<Rightarrow> tron_web \<Rightarrow> string \<Rightarrow> db \<Rightarrow> db" where
  "checkTronBlocks numberDivide tronWeb network s =
     (case tron_getCurrentBlock tronWeb of
        Throws e \<Rightarrow> s
      | Null \<Rightarrow> s
      | Reply currentBlockNumber \<Rightarrow>
          (case getLastProcessedBlock ''trx'' network s of
             None \<Rightarrow> s
           | Some lastProcessedBlock \<Rightarrow>
               fold (checkTronBlock numberDivide tronWeb network)
                 (tronBatch lastProcessedBlock currentBlockNumber) s))"

section \<open>XRP ledger\<close>

text \<open>
  A transaction of a ledger. \<open>x_Amount\<close> is the \<open>Amount\<close> of a payment in XRP, a string
  of drops, held as the number it denotes; payments of issued currencies, whose
  \<open>Amount\<close> is an object, are not modelled.
\<close>

record xrp_tx =
  x_TransactionType :: string
  x_Destination :: string
  x_Amount :: amount
  x_hash :: string
  x_Account :: string
  x_ledger_index :: "int option"
  x_ledger_hash :: string

record xrp_client =
  xrp_serverInfo :: "int reply"
  xrp_ledger :: "int \<Rightarrow> xrp_tx list option reply"

definition getXrpTokenId :: "db \<Rightarrow> error + string" where
  "getXrpTokenId s =
     (case find (\<lambda>t. t_symbol t = ''XRP'' \<and> t_networkVersion t = ''NATIVE'') (tokens s) of
        None \<Rightarrow> Inl (Error ''XRP token not found in database'')
      | Some tok \<Rightarrow> Inr (t_id tok))"

text \<open>\<open>processXrpTransaction\<close>: \<open>tx.Amount\<close> is stored as it is. Errors are logged.\<close>

definition processXrpTransaction :: "string \<Rightarrow> string \<Rightarrow> xrp_tx \<Rightarrow> db \<Rightarrow> db" where
  "processXrpTransaction chain network tx s =
     (if x_TransactionType tx \<noteq> ''Payment'' then s
      else if x_Destination tx \<in> set (map w_address (findWallets chain network s))
      then (case find (\<lambda>w. w_address w = x_Destination tx) (findWallets chain network s) of
              None \<Rightarrow> s
            | Some wallet \<Rightarrow>
                (case getXrpTokenId s of
                   Inl e \<Rightarrow> s
                 | Inr tokenId \<Rightarrow>
                     snd (depositSave
                       \<lparr>d_id = 0, d_userId = w_userId wallet, d_walletId = w_id wallet,
                        d_tokenId = tokenId, d_txHash = x_hash tx, d_amount = x_Amount tx,
                        d_blockchain = chain, d_network = network, d_networkVersion = ''NATIVE'',
                        d_blockNumber = x_ledger_index tx, d_status = ''pending'',
                        d_confirmations = 0, d_from = x_Account tx,
                        d_contractAddress = None, d_blockHash = x_ledger_hash tx\<rparr> s)))
      else s)"

text \<open>
  \<open>processXrpLedger\<close> catches every error, also that of the request for the ledger, and
  returns normally.
\<close>

definition processXrpLedger :: "string \<Rightarrow> string \<Rightarrow> int \<Rightarrow> xrp_client \<Rightarrow> db \<Rightarrow> db" where
  "processXrpLedger chain network ledgerIndex provider s =
     (case xrp_ledger provider ledgerIndex of
        Throws e \<Rightarrow> s
      | Null \<Rightarrow> s
      | Reply transactions \<Rightarrow>
          fold (processXrpTransaction chain network)
            (case transactions of Some txs \<Rightarrow> txs | None \<Rightarrow> []) s)"

text \<open>
  \<open>checkXrpBlocks\<close>: every ledger of the gap is processed and then saved as the
  checkpoint. An error of the save ends the loop and is logged.
\<close>

definition checkXrpLedger :: "string \<Rightarrow> xrp_client \<Rightarrow> int \<Rightarrow> db \<Rightarrow> error option \<times> db" where
  "checkXrpLedger network provider ledgerIndex s =
     saveLastProcessedBlock ''xrp'' network ledgerIndex
       (processXrpLedger ''xrp'' network ledgerIndex provider s)"

definition checkXrpBlocks :: "string \<Rightarrow> xrp_client option \<Rightarrow> db \<Rightarrow> db" where
  "checkXrpBlocks network prov s =
     (case prov of
        None \<Rightarrow> s
      | Some provider \<Rightarrow>
          (case xrp_serverInfo provider of
             Throws e \<Rightarrow> s
           | Null \<Rightarrow> s
           | Reply currentLedger \<Rightarrow>
               (case getLastProcessedBlock ''xrp'' network s of
                  None \<Rightarrow> s
                | Some lastProcessedBlock \<Rightarrow>
                    snd (forEach (checkXrpLedger network provider)
                           [lastProcessedBlock + 1..currentLedger] s))))"

section \<open>Names used in the statements\<close>

text \<open>
  The checkpoint key \<open>last_processed_block_{chainKey}_{network}\<close>: the chain key is
  the lowercased chain name, with \<open>bitcoin\<close> replaced by \<open>btc\<close>.
\<close>

definition checkpointKey :: "string \<Rightarrow> string \<Rightarrow> string" where
  "checkpointKey chain network =
     ''last_processed_block_''
       @ (if toLowerCase chain = ''bitcoin'' then ''btc'' else toLowerCase chain)
       @ ''_'' @ network"

text \<open>
  The confirmations a pass at height \<open>h\<close> computes for a deposit, and the count the
  Tron updater requires on a network.
\<close>

definition confirmationsAt :: "int \<Rightarrow> deposit \<Rightarrow> int" where
  "confirmationsAt h dep = h - (case d_blockNumber dep of Some b \<Rightarrow> b | None \<Rightarrow> 0)"

definition tronRequired :: "string \<Rightarrow> nat option" where
  "tronRequired network = (case CONFIRMATION_BLOCKS ''trx'' of None \<Rightarrow> None | Some tbl \<Rightarrow> tbl network)"

text \<open>
  A pass of one of the two updaters, \<open>updateTronConfirmations(network, currentBlock)\<close>
  or \<open>updateEvmConfirmations(chain, network, currentBlock)\<close>: what it runs, its \<open>try\<close>
  block, the deposits it selects, its height and the required count it reads.
\<close>

datatype pass = TronPass string int | EvmPass string string int

fun runPass :: "pass \<Rightarrow> db \<Rightarrow> db" where
  "runPass (TronPass network h) s = updateTronConfirmations network h s"
| "runPass (EvmPass chain network h) s = updateEvmConfirmations chain network h s"

fun passLoop :: "pass \<Rightarrow> db \<Rightarrow> error option \<times> db" where
  "passLoop (TronPass network h) s = tronConfirmationLoop network h s"
| "passLoop (EvmPass chain network h) s = evmConfirmationLoop chain network h s"

fun passSelects :: "pass \<Rightarrow> db \<Rightarrow> deposit list" where
  "passSelects (TronPass network h) s = findPending ''trx'' network s"
| "passSelects (EvmPass chain network h) s = findPending chain network s"

fun passHeight :: "pass \<Rightarrow> int" where
  "passHeight (TronPass network h) = h"
| "passHeight (EvmPass chain network h) = h"

fun passRequired :: "pass \<Rightarrow> error + nat option" where
  "passRequired (TronPass network h) =
     (case CONFIRMATION_BLOCKS ''trx'' of
        None \<Rightarrow> Inl (TypeError ''Cannot read properties of undefined'')
      | Some tbl \<Rightarrow> Inr (tbl network))"
| "passRequired (EvmPass chain network h) =
     (case CONFIRMATION_BLOCKS (getChainKey chain) of
        None \<Rightarrow> Inl (TypeError ''Cannot read properties of undefined'')
      | Some tbl \<Rightarrow> Inr (tbl network))"



text \<open>The balance row a deposit is credited to, when its token exists.\<close>

definition ledgerKey :: "token list \<Rightarrow> deposit \<Rightarrow> (string \<times> string \<times> string) option" where
  "ledgerKey toks dep =
     map_option (\<lambda>tok. balanceKey tok dep) (find (\<lambda>t. t_id t = d_tokenId dep) toks)"

text \<open>
  The balance that crediting a list of deposits one after the other leaves, and the
  condition under which no addition on the way is rounded.
\<close>

definition creditAll :: "deposit list \<Rightarrow> amount \<Rightarrow> amount" where
  "creditAll deps bal = fold (\<lambda>dep b. decimalPlus b (d_amount dep)) deps bal"


text \<open>A sequence of passes.\<close>

fun runPasses :: "pass list \<Rightarrow> db \<Rightarrow> db" where
  "runPasses [] s = s"
| "runPasses (p # ps) s = runPasses ps (runPass p s)"

text \<open>The deposits table without the rows of some ids.\<close>

definition withoutDeposits :: "nat set \<Rightarrow> db \<Rightarrow> db" where
  "withoutDeposits X s = s\<lparr>deposits := filter (\<lambda>r. d_id r \<notin> X) (deposits s)\<rparr>"

section \<open>Example states\<close>

definition emptyDb :: db where
  "emptyDb = \<lparr>deposits = [], depositSeq = 0, wallets = [], tokens = [],
               walletBalances = Map.empty, systemSettings = Map.empty\<rparr>"

definition trxToken :: token where
  "trxToken = \<lparr>t_id = ''t1'', t_symbol = ''TRX'', t_baseSymbol = None, t_blockchain = ''trx'',
                t_contractAddress = None, t_networkVersion = ''NATIVE'', t_decimals = 6,
                t_isActive = True\<rparr>"

text \<open>
  A Tron mainnet deposit of user \<open>u1\<close> in the token \<open>t1\<close>; its transaction hash is
  \<open>tx\<close> followed by the digit of its id.
\<close>

definition tronDeposit :: "nat \<Rightarrow> int \<Rightarrow> string \<Rightarrow> int \<Rightarrow> amount \<Rightarrow> deposit" where
  "tronDeposit i bn st c amt =
     \<lparr>d_id = i, d_userId = ''u1'', d_walletId = ''w1'', d_tokenId = ''t1'',
      d_txHash = ''tx'' @ [digitChar i],
      d_amount = amt, d_blockchain = ''trx'', d_network = ''mainnet'', d_networkVersion = ''NATIVE'',
      d_blockNumber = Some bn, d_status = st, d_confirmations = c, d_from = ''sender'',
      d_contractAddress = None, d_blockHash = ''hash''\<rparr>"




text \<open>\<open>stuckDb\<close>: as \<open>unfundedDb\<close>, with a second pending deposit, of 4 at block 90.\<close>

definition stuckDb :: db where
  "stuckDb = \<lparr>deposits = [tronDeposit 1 100 ''pending'' 0 5, tronDeposit 2 90 ''pending'' 0 4],
               depositSeq = 3, wallets = [], tokens = [trxToken],
               walletBalances = [(''u2'', ''TRX'', ''spot'') \<mapsto> 7],
               systemSettings = Map.empty\<rparr>"

definition reorgDb :: db where
  "reorgDb = \<lparr>deposits = [tronDeposit 1 100 ''confirming'' 3 5], depositSeq = 2,
               wallets = [], tokens = [trxToken],
               walletBalances = [(''u1'', ''TRX'', ''spot'') \<mapsto> 10],
               systemSettings = Map.empty\<rparr>"

text \<open>
  An Ethereum mainnet wallet \<open>0xabc\<close> of user \<open>U\<close>, the native token with 18
  decimals and an ERC-20 token at contract \<open>0xc\<close> with 6 decimals. \<open>nativeTx\<close> sends
  \<open>10^18\<close> wei to the wallet in block 1000. \<open>erc20Tx\<close> calls the token contract, and
  its receipt has the log \<open>Transfer(0x1, 0xabc, 5000000)\<close>.
\<close>

definition ethWallet :: wallet where
  "ethWallet = \<lparr>w_id = ''w1'', w_userId = ''U'', w_address = ''0xabc'', w_blockchain = ''eth'',
                 w_network = ''mainnet''\<rparr>"

definition ethToken :: token where
  "ethToken = \<lparr>t_id = ''t0'', t_symbol = ''ETH'', t_baseSymbol = None, t_blockchain = ''eth'',
                t_contractAddress = None, t_networkVersion = ''NATIVE'', t_decimals = 18,
                t_isActive = True\<rparr>"

definition usdcToken :: token where
  "usdcToken = \<lparr>t_id = ''t2'', t_symbol = ''USDC'', t_baseSymbol = None, t_blockchain = ''eth'',
                 t_contractAddress = Some ''0xc'', t_networkVersion = ''ERC20'', t_decimals = 6,
                 t_isActive = True\<rparr>"

definition ethDb :: db where
  "ethDb = \<lparr>deposits = [], depositSeq = 1, wallets = [ethWallet],
             tokens = [ethToken, usdcToken],
             walletBalances = [(''U'', ''ETH'', ''spot'') \<mapsto> 0, (''U'', ''USDC'', ''spot'') \<mapsto> 0],
             systemSettings = Map.empty\<rparr>"

definition nativeTx :: evm_tx where
  "nativeTx = \<lparr>tx_hash = ''0xh1'', tx_to = Some ''0xabc'', tx_from = ''0x1'', tx_data = Some ''0x'',
                tx_value = 1000000000000000000, tx_blockNumber = Some 1000, tx_blockHash = ''0xb1'',
                tx_wait = Reply []\<rparr>"

definition erc20Tx :: evm_tx where
  "erc20Tx = \<lparr>tx_hash = ''0xh2'', tx_to = Some ''0xC'', tx_from = ''0x1'', tx_data = Some ''0xa9059cbb'',
               tx_value = 0, tx_blockNumber = Some 1000, tx_blockHash = ''0xb1'',
               tx_wait = Reply [TransferLog ''0x1'' ''0xabc'' 5000000]\<rparr>"

text \<open>
  A provider whose block 1000 holds \<open>nativeTx\<close> and whose other blocks are empty, and the
  state after block 1000 was processed.
\<close>

definition ethProvider :: evm_provider where
  "ethProvider = \<lparr>evm_getBlock = (\<lambda>n. Reply \<lparr>eb_transactions = (if n = 1000 then [''0xh1''] else [])\<rparr>),
                   evm_getTransaction = (\<lambda>h i. if h = ''0xh1'' then Reply nativeTx else Null)\<rparr>"

definition ethDbAt1000 :: db where
  "ethDbAt1000 = snd (processEvmBlock ''eth'' ''mainnet'' 1000 ethProvider ethDb)"

text \<open>
  An XRP mainnet wallet \<open>rW1\<close>, the XRP token with 6 decimals, and a payment of
  1000000 drops (1 XRP) to the wallet.
\<close>

definition xrpDb :: db where
  "xrpDb = \<lparr>deposits = [], depositSeq = 1,
             wallets = [\<lparr>w_id = ''w5'', w_userId = ''U'', w_address = ''rW1'', w_blockchain = ''xrp'',
                         w_network = ''mainnet''\<rparr>],
             tokens = [\<lparr>t_id = ''t5'', t_symbol = ''XRP'', t_baseSymbol = None, t_blockchain = ''xrp'',
                        t_contractAddress = None, t_networkVersion = ''NATIVE'', t_decimals = 6,
                        t_isActive = True\<rparr>],
             walletBalances = [(''U'', ''XRP'', ''spot'') \<mapsto> 0],
             systemSettings = Map.empty\<rparr>"

definition xrpPayment :: xrp_tx where
  "xrpPayment = \<lparr>x_TransactionType = ''Payment'', x_Destination = ''rW1'', x_Amount = 1000000,
                  x_hash = ''H1'', x_Account = ''rS1'', x_ledger_index = Some 500,
                  x_ledger_hash = ''L1''\<rparr>"

text \<open>
  A Tron mainnet wallet \<open>TW1\<close> and a block 7 with one \<open>TransferContract\<close> of 10000000
  sun to it; addresses are given in base58 already.
\<close>

definition tronDb :: db where
  "tronDb = \<lparr>deposits = [], depositSeq = 1,
              wallets = [\<lparr>w_id = ''w1'', w_userId = ''u1'', w_address = ''TW1'', w_blockchain = ''trx'',
                          w_network = ''mainnet''\<rparr>],
              tokens = [trxToken],
              walletBalances = [(''u1'', ''TRX'', ''spot'') \<mapsto> 0],
              systemSettings = Map.empty\<rparr>"

definition tronBlock7 :: tron_block where
  "tronBlock7 = \<lparr>tb_transactions = Some [\<lparr>ttx_txID = ''T1'', ttx_type = Some ''TransferContract'',
                     ttx_to_address = ''TW1'', ttx_owner_address = ''TS1'', ttx_amount = 10000000,
                     ttx_asset_name = None\<rparr>],
                  tb_number = 7, tb_blockID = ''B7''\<rparr>"

text \<open>A Tron node at height 100 whose blocks are all empty.\<close>

definition tronNode :: tron_web where
  "tronNode = \<lparr>tron_getCurrentBlock = Reply 100,
                tron_getBlock = (\<lambda>n i. Reply \<lparr>tb_transactions = Some [], tb_number = n, tb_blockID = ''B''\<rparr>),
                tron_fromHex = (\<lambda>a. a)\<rparr>"

text \<open>
  Bitcoin nodes at height 3 with empty blocks: \<open>gapNode\<close> has no block 1 (the call
  resolves to \<open>null\<close>), \<open>failingNode\<close> throws on block 2. An XRP node at ledger 1
  whose \<open>ledger\<close> request throws.
\<close>

definition gapNode :: btc_provider where
  "gapNode = \<lparr>btc_getBlockHeight = Reply 3,
               btc_getBlock = (\<lambda>n. if n = 1 then Null
                                    else Reply \<lparr>bb_tx = Some [], bb_height = n, bb_hash = ''h''\<rparr>)\<rparr>"

definition failingNode :: btc_provider where
  "failingNode = \<lparr>btc_getBlockHeight = Reply 3,
                   btc_getBlock = (\<lambda>n. if n = 2 then Throws (Error ''Bitcoin RPC error'')
                                        else Reply \<lparr>bb_tx = Some [], bb_height = n, bb_hash = ''h''\<rparr>)\<rparr>"

definition failingLedger :: xrp_client where
  "failingLedger = \<lparr>xrp_serverInfo = Reply 1, xrp_ledger = (\<lambda>n. Throws (Error ''timeout''))\<rparr>"

section \<open>Checkpoint keys and values\<close>

lemma digitValue_digitChar: "d < 10 \<Longrightarrow> digitValue (digitChar d) = Some d"
  by (simp add: digitValue_def digitChar_def Let_def)

lemma isDigitOf_digitChar: "d < 10 \<Longrightarrow> isDigitOf 10 (digitChar d)"
  by (simp add: isDigitOf_def digitValue_digitChar)

lemma natToString_small: "n < 10 \<Longrightarrow> natToString n = [digitChar n]"
  by (subst natToString.simps) simp

lemma natToString_big:
  "\<not> n < 10 \<Longrightarrow> natToString n = natToString (n div 10) @ [digitChar (n mod 10)]"
  by (subst natToString.simps) simp

lemma natToString_digits: "c \<in> set (natToString n) \<Longrightarrow> isDigitOf 10 c"
proof (induction n arbitrary: c rule: natToString.induct)
  case (1 n)
  show ?case
  proof (cases "n < 10")
    case True
    with "1.prems" show ?thesis by (simp add: natToString_small isDigitOf_digitChar)
  next
    case False
    with "1.prems" have "c \<in> set (natToString (n div 10)) \<or> c = digitChar (n mod 10)"
      by (auto simp: natToString_big)
    then show ?thesis
      using "1.IH" [OF False] by (auto simp: isDigitOf_digitChar)
  qed
qed

lemma natToString_nonempty: "natToString n \<noteq> []"
  by (cases "n < 10") (simp_all add: natToString_small natToString_big)

lemma natToString_value:
  "foldl (\<lambda>a c. a * 10 + (case digitValue c of Some v \<Rightarrow> v | None \<Rightarrow> 0)) 0 (natToString n) = n"
proof (induction n rule: natToString.induct)
  case (1 n)
  show ?case
  proof (cases "n < 10")
    case True
    then show ?thesis by (simp add: natToString_small digitValue_digitChar)
  next
    case False
    then show ?thesis
      using "1.IH" [OF False]
      by (simp add: natToString_big digitValue_digitChar)
  qed
qed

lemma parseDigits_natToString: "parseDigits 10 (natToString n) = Some n"
proof -
  have tw: "takeWhile (isDigitOf 10) (natToString n) = natToString n"
    by (rule takeWhile_eq_all_conv [THEN iffD2]) (simp add: natToString_digits)
  show ?thesis
    unfolding parseDigits_def Let_def tw
    by (simp add: natToString_nonempty natToString_value)
qed

lemma digit_not_x: "isDigitOf 10 c \<Longrightarrow> c \<noteq> CHR ''x'' \<and> c \<noteq> CHR ''X'' \<and> c \<noteq> CHR ''-'' \<and> c \<noteq> CHR ''+'' \<and> \<not> isWhiteSpace c"
  by (auto simp: isDigitOf_def digitValue_def isWhiteSpace_def Let_def split: if_splits)

lemma parseUnsigned_natToString: "parseUnsigned (natToString n) = Some n"
proof (cases "natToString n")
  case Nil
  then show ?thesis using natToString_nonempty [of n] by simp
next
  case (Cons c0 cs)
  show ?thesis
  proof (cases cs)
    case Nil
    with Cons show ?thesis
      using parseDigits_natToString [of n] by (simp add: parseUnsigned_def)
  next
    case (Cons c1 rest)
    with \<open>natToString n = c0 # cs\<close> have "c1 \<in> set (natToString n)" by simp
    then have "c1 \<noteq> CHR ''x'' \<and> c1 \<noteq> CHR ''X''"
      using natToString_digits digit_not_x by blast
    with Cons \<open>natToString n = c0 # cs\<close> show ?thesis
      using parseDigits_natToString [of n] by (simp add: parseUnsigned_def)
  qed
qed

lemma parseInt_natToString: "parseInt (natToString n) = Some (int n)"
proof (cases "natToString n")
  case Nil
  then show ?thesis using natToString_nonempty [of n] by simp
next
  case (Cons c cs)
  then have "c \<in> set (natToString n)" by simp
  then have c: "c \<noteq> CHR ''-'' \<and> c \<noteq> CHR ''+'' \<and> \<not> isWhiteSpace c"
    using natToString_digits digit_not_x by blast
  show ?thesis
    using c Cons parseUnsigned_natToString [of n] by (simp add: parseInt_def)
qed

lemma parseInt_numberToString: "parseInt (numberToString n) = Some n"
proof (cases "n < 0")
  case True
  have "\<not> isWhiteSpace CHR ''-''" by (simp add: isWhiteSpace_def)
  with True show ?thesis
    by (simp add: numberToString_def parseInt_def parseUnsigned_natToString)
next
  case False
  then show ?thesis
    by (simp add: numberToString_def parseInt_natToString)
qed

text \<open>The writer's verification never fails: the value read back parses to the number written.\<close>

lemma saveLastProcessedBlock_eq:
  "saveLastProcessedBlock chain network n s =
     (None, s\<lparr>systemSettings := (systemSettings s)(checkpointKey chain network \<mapsto> numberToString n)\<rparr>)"
  unfolding saveLastProcessedBlock_def checkpointKey_def Let_def
  by (simp add: parseInt_numberToString)

lemma getLastProcessedBlock_eq:
  "getLastProcessedBlock chain network s =
     (case systemSettings s (checkpointKey chain network) of
        None \<Rightarrow> Some 0 | Some v \<Rightarrow> parseInt v)"
  unfolding getLastProcessedBlock_def checkpointKey_def Let_def by (rule refl)

lemma getLastProcessedBlock_save:
  "getLastProcessedBlock chain network (snd (saveLastProcessedBlock chain network n s)) = Some n"
  by (simp add: saveLastProcessedBlock_eq getLastProcessedBlock_eq parseInt_numberToString)

text \<open>Evaluating characters and printed numbers.\<close>

lemma char_of_eval:
  "char_of (n::nat) = Char (odd n) (odd (n div 2)) (odd (n div 4)) (odd (n div 8))
     (odd (n div 16)) (odd (n div 32)) (odd (n div 64)) (odd (n div 128))"
  by (simp add: char_of_def bit_iff_odd)

lemma digitChar_simps:
  "digitChar 0 = CHR ''0''" "digitChar (Suc 0) = CHR ''1''" "digitChar 2 = CHR ''2''"
  "digitChar 3 = CHR ''3''" "digitChar 4 = CHR ''4''" "digitChar 5 = CHR ''5''"
  "digitChar 6 = CHR ''6''" "digitChar 7 = CHR ''7''" "digitChar 8 = CHR ''8''"
  "digitChar 9 = CHR ''9''"
  by (simp_all add: digitChar_def char_of_eval)

lemma toLowerCase_bitcoin: "toLowerCase ''bitcoin'' = ''bitcoin''"
  by (simp add: toLowerCase_def toLowerChar_def)

lemma checkpointKey_bitcoin: "checkpointKey ''bitcoin'' network = ''last_processed_block_btc_'' @ network"
  by (simp add: checkpointKey_def toLowerCase_bitcoin)

text \<open>
  C9. The writer stores the height under
  \<open>last_processed_block_{chainKey}_{network}\<close>, where the chain key is the lowercased
  chain name and \<open>bitcoin\<close> becomes \<open>btc\<close>; the reader looks under the same key, so
  a read after a write gives the height written; and the reader gives 0 when the key
  has no row.
\<close>

theorem checkpoint_key_agreement:
  "saveLastProcessedBlock chain network n s =
     (None, s\<lparr>systemSettings := (systemSettings s)(checkpointKey chain network \<mapsto> numberToString n)\<rparr>)
   \<and> getLastProcessedBlock chain network s =
       (case systemSettings s (checkpointKey chain network) of
          None \<Rightarrow> Some 0 | Some v \<Rightarrow> parseInt v)
   \<and> checkpointKey ''bitcoin'' network = ''last_processed_block_btc_'' @ network
   \<and> getLastProcessedBlock chain network (snd (saveLastProcessedBlock chain network n s)) = Some n
   \<and> (systemSettings s (checkpointKey chain network) = None
        \<longrightarrow> getLastProcessedBlock chain network s = Some 0)"
proof (intro conjI impI)
  show "saveLastProcessedBlock chain network n s =
     (None, s\<lparr>systemSettings := (systemSettings s)(checkpointKey chain network \<mapsto> numberToString n)\<rparr>)"
    by (rule saveLastProcessedBlock_eq)
  show "getLastProcessedBlock chain network s =
       (case systemSettings s (checkpointKey chain network) of
          None \<Rightarrow> Some 0 | Some v \<Rightarrow> parseInt v)"
    by (rule getLastProcessedBlock_eq)
  show "checkpointKey ''bitcoin'' network = ''last_processed_block_btc_'' @ network"
    by (rule checkpointKey_bitcoin)
  show "getLastProcessedBlock chain network (snd (saveLastProcessedBlock chain network n s)) = Some n"
    by (rule getLastProcessedBlock_save)
  show "getLastProcessedBlock chain network s = Some 0"
    if "systemSettings s (checkpointKey chain network) = None"
    using that by (simp add: getLastProcessedBlock_eq)
qed

lemma numberToString_800000: "numberToString 800000 = ''800000''"
  by (simp add: numberToString_def natToString.simps digitChar_simps)

theorem checkpoint_key_agreement_witness:
  "saveLastProcessedBlock ''bitcoin'' ''mainnet'' 800000 emptyDb =
     (None, emptyDb\<lparr>systemSettings := (systemSettings emptyDb)(''last_processed_block_btc_mainnet'' \<mapsto> ''800000'')\<rparr>)
   \<and> getLastProcessedBlock ''bitcoin'' ''mainnet''
        (snd (saveLastProcessedBlock ''bitcoin'' ''mainnet'' 800000 emptyDb)) = Some 800000
   \<and> systemSettings emptyDb (checkpointKey ''bitcoin'' ''mainnet'') = None
   \<and> getLastProcessedBlock ''bitcoin'' ''mainnet'' emptyDb = Some 0"
proof -
  have unwritten: "systemSettings emptyDb (checkpointKey ''bitcoin'' ''mainnet'') = None"
    by (simp add: emptyDb_def)
  note c9 = checkpoint_key_agreement [of "''bitcoin''" "''mainnet''" 800000 emptyDb]
  have k: "checkpointKey ''bitcoin'' ''mainnet'' = ''last_processed_block_btc_mainnet''"
    using c9 by simp
  have w: "saveLastProcessedBlock ''bitcoin'' ''mainnet'' 800000 emptyDb =
     (None, emptyDb\<lparr>systemSettings := (systemSettings emptyDb)(''last_processed_block_btc_mainnet'' \<mapsto> ''800000'')\<rparr>)"
    using c9 [THEN conjunct1] by (simp only: k numberToString_800000)
  have r: "getLastProcessedBlock ''bitcoin'' ''mainnet''
        (snd (saveLastProcessedBlock ''bitcoin'' ''mainnet'' 800000 emptyDb)) = Some 800000"
    using c9 [THEN conjunct2, THEN conjunct2, THEN conjunct2, THEN conjunct1] .
  have z: "getLastProcessedBlock ''bitcoin'' ''mainnet'' emptyDb = Some 0"
    using c9 [THEN conjunct2, THEN conjunct2, THEN conjunct2, THEN conjunct2, THEN mp, OF unwritten] .
  show ?thesis
    by (intro conjI w r unwritten z)
qed

section \<open>Decimal addition\<close>

text \<open>
  The exponent brackets the number, the rounded value is within half a unit of the last
  digit kept, and a number that has no digit beyond it is left as it is.
\<close>

lemma digits10_pos: "0 < digits10 n"
  by (subst digits10.simps) simp

lemma digits10_bounds:
  "1 \<le> n \<Longrightarrow> 10 ^ (digits10 n - 1) \<le> n \<and> n < 10 ^ digits10 n"
proof (induction n rule: digits10.induct)
  case (1 n)
  show ?case
  proof (cases "n < 10")
    case True
    with "1.prems" show ?thesis
      by (subst (1 2) digits10.simps) simp
  next
    case False
    let ?d = "digits10 (n div 10)"
    from False have "1 \<le> n div 10" by simp
    with "1.IH" False have IH: "10 ^ (?d - 1) \<le> n div 10" "n div 10 < 10 ^ ?d"
      by simp_all
    have d: "digits10 n = Suc ?d"
      using False by (subst digits10.simps) simp
    have pos: "0 < ?d" by (rule digits10_pos)
    then have "(10::int) ^ ?d = 10 * 10 ^ (?d - 1)"
      by (cases ?d) simp_all
    with IH(1) have lo: "10 ^ ?d \<le> n" by simp
    from IH(2) have hi: "n < 10 * 10 ^ ?d" by simp
    from lo hi show ?thesis by (simp add: d)
  qed
qed

lemma decimalExponent_bounds:
  assumes "x \<noteq> 0"
  shows "pow10 (decimalExponent x) \<le> \<bar>x\<bar> \<and> \<bar>x\<bar> < pow10 (decimalExponent x + 1)"
proof (cases "1 \<le> \<bar>x\<bar>")
  case True
  let ?n = "\<lfloor>\<bar>x\<bar>\<rfloor>"
  let ?d = "digits10 ?n"
  from True have n1: "1 \<le> ?n" by simp
  from digits10_bounds [OF n1] have b: "10 ^ (?d - 1) \<le> ?n" "?n < 10 ^ ?d" by simp_all
  have pos: "0 < ?d" by (rule digits10_pos)
  have e: "decimalExponent x = int ?d - 1"
    using True by (simp add: decimalExponent_def)
  have "(of_int (10 ^ (?d - 1)) :: rat) \<le> of_int ?n"
    using b(1) by (simp only: of_int_le_iff)
  also have "\<dots> \<le> \<bar>x\<bar>" by simp
  finally have lo: "(10::rat) ^ (?d - 1) \<le> \<bar>x\<bar>" by simp
  from b(2) have "?n + 1 \<le> 10 ^ ?d" by simp
  then have "(of_int (?n + 1) :: rat) \<le> of_int (10 ^ ?d)"
    by (simp only: of_int_le_iff)
  moreover have "\<bar>x\<bar> < of_int (?n + 1)" by linarith
  ultimately have hi: "\<bar>x\<bar> < (10::rat) ^ ?d" by simp
  have n: "nat (int ?d - 1) = ?d - 1" "nat (int ?d) = ?d" by simp_all
  from lo hi pos show ?thesis
    by (simp add: e pow10_def n)
next
  case False
  let ?y = "1 / \<bar>x\<bar>"
  let ?m = "\<lceil>?y\<rceil> - 1"
  let ?d = "digits10 ?m"
  from False assms have x: "0 < \<bar>x\<bar>" "\<bar>x\<bar> < 1" by simp_all
  then have y: "1 < ?y" by simp
  then have "1 < \<lceil>?y\<rceil>" by (simp add: less_ceiling_iff)
  then have m1: "1 \<le> ?m" by simp
  from digits10_bounds [OF m1] have b: "10 ^ (?d - 1) \<le> ?m" "?m < 10 ^ ?d" by simp_all
  have pos: "0 < ?d" by (rule digits10_pos)
  have e: "decimalExponent x = - int ?d"
    using False by (simp add: decimalExponent_def)
  have my: "of_int ?m < ?y" "?y \<le> of_int ?m + 1"
    by linarith+
  from b(2) have "?m + 1 \<le> 10 ^ ?d" by simp
  then have "(of_int (?m + 1) :: rat) \<le> of_int (10 ^ ?d)"
    by (simp only: of_int_le_iff)
  then have "of_int ?m + 1 \<le> (10::rat) ^ ?d" by simp
  with my(2) have "?y \<le> (10::rat) ^ ?d" by (rule order_trans)
  then have lo: "1 / 10 ^ ?d \<le> \<bar>x\<bar>"
    using x(1) by (simp add: field_simps)
  have "(of_int (10 ^ (?d - 1)) :: rat) \<le> of_int ?m"
    using b(1) by (simp only: of_int_le_iff)
  with my(1) have "(10::rat) ^ (?d - 1) < ?y" by simp
  then have hi: "\<bar>x\<bar> < 1 / 10 ^ (?d - 1)"
    using x(1) by (simp add: field_simps)
  have n: "nat (int ?d - 1) = ?d - 1" by simp
  show ?thesis
  proof (cases "?d = 1")
    case True
    with lo hi show ?thesis by (simp add: e pow10_def)
  next
    case False
    with pos have "1 < ?d" by simp
    with lo hi show ?thesis by (simp add: e pow10_def n)
  qed
qed

lemma pow10_pos: "0 < pow10 e"
  by (simp add: pow10_def)

lemma finalise_error:
  assumes "x \<noteq> 0"
  shows "\<bar>finalise sd x - x\<bar> \<le> pow10 (decimalExponent x - (int sd - 1)) / 2"
proof -
  let ?u = "pow10 (decimalExponent x - (int sd - 1))"
  let ?k = "\<lfloor>\<bar>x\<bar> / ?u + 1 / 2\<rfloor>"
  have u: "0 < ?u" by (rule pow10_pos)
  have f: "finalise sd x = sgn x * (of_int ?k * ?u)"
    using assms by (simp add: finalise_def Let_def)
  have x: "x = sgn x * \<bar>x\<bar>"
    by (simp add: mult.commute abs_sgn)
  have "finalise sd x - x = sgn x * (of_int ?k * ?u - \<bar>x\<bar>)"
    by (subst x) (simp add: f right_diff_distrib)
  then have "\<bar>finalise sd x - x\<bar> = \<bar>sgn x\<bar> * \<bar>of_int ?k * ?u - \<bar>x\<bar>\<bar>"
    by (simp only: abs_mult)
  also have "\<dots> = \<bar>of_int ?k * ?u - \<bar>x\<bar>\<bar>"
    using assms by (simp add: abs_sgn_eq)
  finally have eq: "\<bar>finalise sd x - x\<bar> = \<bar>of_int ?k * ?u - \<bar>x\<bar>\<bar>" .
  have "of_int ?k \<le> \<bar>x\<bar> / ?u + 1 / 2" by (rule of_int_floor_le)
  then have "of_int ?k * ?u \<le> (\<bar>x\<bar> / ?u + 1 / 2) * ?u"
    using u by (simp only: mult_le_cancel_right_pos)
  then have hi: "of_int ?k * ?u - \<bar>x\<bar> \<le> ?u / 2"
    using u by (simp add: field_simps)
  have "\<bar>x\<bar> / ?u + 1 / 2 < of_int ?k + 1" by linarith
  then have "(\<bar>x\<bar> / ?u + 1 / 2) * ?u < (of_int ?k + 1) * ?u"
    using u by (simp only: mult_less_cancel_right_pos)
  then have lo: "- (?u / 2) \<le> of_int ?k * ?u - \<bar>x\<bar>"
    using u by (simp add: field_simps)
  from lo have lo': "- (of_int ?k * ?u - \<bar>x\<bar>) \<le> ?u / 2"
    by (simp only: minus_le_iff)
  from hi lo' have "\<bar>of_int ?k * ?u - \<bar>x\<bar>\<bar> \<le> ?u / 2"
    by (rule abs_leI)
  with eq show ?thesis by simp
qed

lemma finalise_exact:
  assumes "\<bar>x\<bar> = of_int k * pow10 (decimalExponent x - (int sd - 1))"
  shows "finalise sd x = x"
proof (cases "x = 0")
  case True
  then show ?thesis by (simp add: finalise_def)
next
  case False
  let ?u = "pow10 (decimalExponent x - (int sd - 1))"
  have u: "0 < ?u" by (rule pow10_pos)
  from assms u have "\<bar>x\<bar> / ?u = of_int k" by simp
  then have "\<lfloor>\<bar>x\<bar> / ?u + 1 / 2\<rfloor> = k"
    by (simp add: floor_unique)
  then have "finalise sd x = sgn x * (of_int k * ?u)"
    using False by (simp add: finalise_def Let_def)
  also have "\<dots> = sgn x * \<bar>x\<bar>" by (simp only: assms)
  also have "\<dots> = x" by (simp add: mult.commute abs_sgn)
  finally show ?thesis .
qed

text \<open>Sums the library gives, exact ones and rounded ones.\<close>

lemma decimalPlus_eval:
  "decimalPlus 10 5 = 15"
  "decimalPlus 0 1 = 1"
  "decimalPlus (201 / 2) (1 / 10 ^ 18) = 201 / 2"
  "decimalPlus 12345678901234567890 (1 / 2) = 12345678901234567891"
  "decimalPlus 12345678901234567890 (49 / 100) = 12345678901234567890"
  "decimalPlus (1 / 1000) (5 / 10 ^ 23) = 10000000000000000001 / 10 ^ 22"
  "decimalPlus (1 / 1000) (4 / 10 ^ 23) = 1 / 1000"
  by code_simp+

section \<open>The ledger and the updater\<close>

lemma depositUpdate_frame [simp]:
  "tokens (depositUpdate i c st s) = tokens s"
  "walletBalances (depositUpdate i c st s) = walletBalances s"
  "wallets (depositUpdate i c st s) = wallets s"
  "systemSettings (depositUpdate i c st s) = systemSettings s"
  "depositSeq (depositUpdate i c st s) = depositSeq s"
  by (simp_all add: depositUpdate_def)

lemma depositUpdate_ids [simp]:
  "map d_id (deposits (depositUpdate i c st s)) = map d_id (deposits s)"
  by (simp add: depositUpdate_def)

lemma depositUpdate_other:
  "r \<in> set (deposits s) \<Longrightarrow> d_id r \<noteq> i \<Longrightarrow> r \<in> set (deposits (depositUpdate i c st s))"
  by (force simp: depositUpdate_def)

lemma depositUpdate_this:
  "r \<in> set (deposits s) \<Longrightarrow> d_id r = i \<Longrightarrow>
     r\<lparr>d_confirmations := c, d_status := st\<rparr> \<in> set (deposits (depositUpdate i c st s))"
  by (force simp: depositUpdate_def)

lemma updateWalletBalance_eq:
  "updateWalletBalance dep s =
     (case ledgerKey (tokens s) dep of
        None \<Rightarrow> Inl (TypeError ''Cannot read properties of null'')
      | Some key \<Rightarrow>
          (case walletBalances s key of
             None \<Rightarrow> Inl (Error ''Wallet balance not found'')
           | Some bal \<Rightarrow>
               Inr (s\<lparr>walletBalances := (walletBalances s)(key \<mapsto> decimalPlus bal (d_amount dep))\<rparr>)))"
  by (simp add: updateWalletBalance_def ledgerKey_def split: option.splits)

lemma updateWalletBalance_Inl_transfer:
  assumes "updateWalletBalance dep s = Inl e"
    and "tokens t = tokens s" and "dom (walletBalances t) = dom (walletBalances s)"
  shows "updateWalletBalance dep t = Inl e"
proof (cases "ledgerKey (tokens s) dep")
  case None
  with assms show ?thesis by (simp add: updateWalletBalance_eq)
next
  case (Some key)
  with assms(1) have "walletBalances s key = None"
    by (simp add: updateWalletBalance_eq split: option.splits)
  then have "walletBalances t key = None"
    using assms(3) by (metis domIff)
  with Some assms show ?thesis
    by (simp add: updateWalletBalance_eq split: option.splits)
qed

lemma tron_req:
  "(case CONFIRMATION_BLOCKS ''trx'' of
      None \<Rightarrow> Inl (TypeError ''Cannot read properties of undefined'')
    | Some tbl \<Rightarrow> Inr (tbl network)) = Inr (tronRequired network)"
  by (simp add: CONFIRMATION_BLOCKS_def tronRequired_def)

lemma tronConfirmationLoop_eq:
  "tronConfirmationLoop network h s =
     forEach (confirmStep (Inr (tronRequired network)) h) (findPending ''trx'' network s) s"
  by (simp add: tronConfirmationLoop_def tron_req)

text \<open>One step of the loop, by cases.\<close>

lemma confirmStep_below:
  "\<not> reaches required (confirmationsAt h dep) \<Longrightarrow>
     confirmStep (Inr required) h dep s =
       (None, depositUpdate (d_id dep) (confirmationsAt h dep) ''confirming'' s)"
  by (simp add: confirmStep_def confirmationsAt_def Let_def)

lemma confirmStep_credit:
  "reaches required (confirmationsAt h dep) \<Longrightarrow> d_status dep \<noteq> ''confirmed'' \<Longrightarrow>
     confirmStep (Inr required) h dep s =
       (case updateWalletBalance dep (depositUpdate (d_id dep) (confirmationsAt h dep) ''confirmed'' s) of
          Inl e \<Rightarrow> (Some e, depositUpdate (d_id dep) (confirmationsAt h dep) ''confirmed'' s)
        | Inr s2 \<Rightarrow> (None, s2))"
  by (simp add: confirmStep_def confirmationsAt_def Let_def split: sum.splits)

lemma findPending_status:
  "dep \<in> set (findPending chain network s) \<Longrightarrow> d_status dep \<noteq> ''confirmed''"
  by (auto simp: findPending_def)


section \<open>Loops\<close>

lemma forEach_append:
  "forEach f (xs @ ys) s =
     (case forEach f xs s of (Some e, s') \<Rightarrow> (Some e, s') | (None, s') \<Rightarrow> forEach f ys s')"
  by (induction xs arbitrary: s) (auto split: prod.splits option.splits)

lemma forEach_invariant:
  assumes "\<And>x s e s'. x \<in> set xs \<Longrightarrow> P s \<Longrightarrow> f x s = (e, s') \<Longrightarrow> P s'"
    and "P s" and "forEach f xs s = (e, s')"
  shows "P s'"
  using assms
proof (induction xs arbitrary: s)
  case Nil
  then show ?case by simp
next
  case (Cons x xs)
  obtain e1 s1 where step: "f x s = (e1, s1)" by (cases "f x s")
  have P1: "P s1" using Cons.prems(1) [of x s e1 s1] Cons.prems(2) step by simp
  show ?case
  proof (cases e1)
    case None
    with step Cons.prems(3) have loop: "forEach f xs s1 = (e, s')" by simp
    have rest: "P t'" if "y \<in> set xs" "P t" "f y t = (e', t')" for y t e' t'
      using Cons.prems(1) [of y t e' t'] that by simp
    show ?thesis by (rule Cons.IH [OF rest P1 loop])
  next
    case (Some a)
    with step Cons.prems(3) have "s' = s1" by simp
    with P1 show ?thesis by simp
  qed
qed

section \<open>What a pass leaves alone\<close>

lemma updateWalletBalance_frame:
  "updateWalletBalance dep s = Inr s' \<Longrightarrow>
     deposits s' = deposits s \<and> tokens s' = tokens s \<and> wallets s' = wallets s
     \<and> systemSettings s' = systemSettings s \<and> depositSeq s' = depositSeq s \<and> dom (walletBalances s') = dom (walletBalances s)"
  by (auto simp: updateWalletBalance_eq split: option.splits if_splits)

lemma confirmStep_frame:
  assumes "confirmStep req h dep s = (e, s')"
  shows "tokens s' = tokens s \<and> wallets s' = wallets s \<and> systemSettings s' = systemSettings s
     \<and> depositSeq s' = depositSeq s
     \<and> dom (walletBalances s') = dom (walletBalances s)
     \<and> map d_id (deposits s') = map d_id (deposits s)"
proof (cases req)
  case (Inl a)
  with assms show ?thesis by (simp add: confirmStep_def Let_def)
next
  case (Inr required)
  show ?thesis
  proof (cases "reaches required (confirmationsAt h dep) \<and> d_status dep \<noteq> ''confirmed''")
    case True
    let ?s1 = "depositUpdate (d_id dep) (confirmationsAt h dep) ''confirmed'' s"
    show ?thesis
    proof (cases "updateWalletBalance dep ?s1")
      case (Inl a)
      with True Inr assms have "s' = ?s1" by (simp add: confirmStep_credit)
      then show ?thesis by simp
    next
      case (Inr s2)
      with True \<open>req = Inr required\<close> assms have "s' = s2" by (simp add: confirmStep_credit)
      with updateWalletBalance_frame [OF Inr] show ?thesis by simp
    qed
  next
    case False
    with Inr assms have "\<exists>st. s' = depositUpdate (d_id dep) (confirmationsAt h dep) st s"
      by (auto simp: confirmStep_def confirmationsAt_def Let_def)
    then show ?thesis by auto
  qed
qed

lemma confirmStep_other:
  assumes "confirmStep req h dep s = (e, s')" and "r \<in> set (deposits s)" and "d_id r \<noteq> d_id dep"
  shows "r \<in> set (deposits s')"
proof (cases req)
  case (Inl a)
  with assms show ?thesis by (simp add: confirmStep_def Let_def)
next
  case (Inr required)
  have upd: "r \<in> set (deposits (depositUpdate (d_id dep) c st s))" for c st
    using assms(2,3) by (rule depositUpdate_other)
  show ?thesis
  proof (cases "reaches required (confirmationsAt h dep) \<and> d_status dep \<noteq> ''confirmed''")
    case True
    let ?s1 = "depositUpdate (d_id dep) (confirmationsAt h dep) ''confirmed'' s"
    show ?thesis
    proof (cases "updateWalletBalance dep ?s1")
      case (Inl a)
      with True Inr assms have "s' = ?s1" by (simp add: confirmStep_credit)
      then show ?thesis using upd by simp
    next
      case (Inr s2)
      with True \<open>req = Inr required\<close> assms have "s' = s2" by (simp add: confirmStep_credit)
      with updateWalletBalance_frame [OF Inr] upd show ?thesis by simp
    qed
  next
    case False
    with Inr assms have "\<exists>st. s' = depositUpdate (d_id dep) (confirmationsAt h dep) st s"
      by (auto simp: confirmStep_def confirmationsAt_def Let_def)
    then show ?thesis using upd by auto
  qed
qed

lemma confirmLoop_frame:
  assumes "forEach (confirmStep req h) ds s = (e, s')"
  shows "tokens s' = tokens s \<and> wallets s' = wallets s \<and> systemSettings s' = systemSettings s
     \<and> depositSeq s' = depositSeq s
     \<and> dom (walletBalances s') = dom (walletBalances s)
     \<and> map d_id (deposits s') = map d_id (deposits s)"
proof (rule forEach_invariant [where f = "confirmStep req h" and xs = ds and s = s and e = e
      and P = "\<lambda>t. tokens t = tokens s \<and> wallets t = wallets s \<and> systemSettings t = systemSettings s
     \<and> depositSeq t = depositSeq s
     \<and> dom (walletBalances t) = dom (walletBalances s)
     \<and> map d_id (deposits t) = map d_id (deposits s)"])
  show "forEach (confirmStep req h) ds s = (e, s')" by (rule assms)
  show "tokens t' = tokens s \<and> wallets t' = wallets s \<and> systemSettings t' = systemSettings s
     \<and> depositSeq t' = depositSeq s
     \<and> dom (walletBalances t') = dom (walletBalances s)
     \<and> map d_id (deposits t') = map d_id (deposits s)"
    if "x \<in> set ds"
      and "tokens t = tokens s \<and> wallets t = wallets s \<and> systemSettings t = systemSettings s
     \<and> depositSeq t = depositSeq s
     \<and> dom (walletBalances t) = dom (walletBalances s)
     \<and> map d_id (deposits t) = map d_id (deposits s)"
      and "confirmStep req h x t = (e', t')"
    for x t e' t'
    using confirmStep_frame [OF that(3)] that(2) by simp
qed simp

lemma confirmLoop_other:
  assumes "forEach (confirmStep req h) ds s = (e, s')"
    and "r \<in> set (deposits s)" and "d_id r \<notin> d_id ` set ds"
  shows "r \<in> set (deposits s')"
proof (rule forEach_invariant [where f = "confirmStep req h" and xs = ds and s = s and e = e
      and P = "\<lambda>t. r \<in> set (deposits t)"])
  show "forEach (confirmStep req h) ds s = (e, s')" by (rule assms)
  show "r \<in> set (deposits s)" by (rule assms)
  show "r \<in> set (deposits t')" if "x \<in> set ds" "r \<in> set (deposits t)" "confirmStep req h x t = (e', t')"
    for x t e' t'
    using confirmStep_other [OF that(3) that(2)] that(1) assms(3) by auto
qed


section \<open>What a completed pass credits\<close>

lemma creditAll_simps [simp]:
  "creditAll [] b = b"
  "creditAll (dep # deps) b = creditAll deps (decimalPlus b (d_amount dep))"
  by (simp_all add: creditAll_def)



section \<open>What a pass writes into the rows it reaches\<close>

lemma confirmStep_this:
  assumes "confirmStep (Inr required) h dep s = (e, s')" and "dep \<in> set (deposits s)"
  shows "dep\<lparr>d_confirmations := confirmationsAt h dep,
              d_status := (if reaches required (confirmationsAt h dep) then ''confirmed'' else ''confirming'')\<rparr>
           \<in> set (deposits s')"
proof -
  let ?st = "if reaches required (confirmationsAt h dep) then ''confirmed'' else ''confirming''"
  let ?s1 = "depositUpdate (d_id dep) (confirmationsAt h dep) ?st s"
  have row: "dep\<lparr>d_confirmations := confirmationsAt h dep, d_status := ?st\<rparr> \<in> set (deposits ?s1)"
    using assms(2) by (simp add: depositUpdate_this)
  have "deposits s' = deposits ?s1"
    using assms(1)
    by (auto simp: confirmStep_def confirmationsAt_def Let_def
        split: sum.splits if_splits dest: updateWalletBalance_frame)
  with row show ?thesis by simp
qed

lemma confirmLoop_processed:
  assumes "forEach (confirmStep (Inr required) h) ds s = (None, s')"
    and "distinct (map d_id ds)" and "dep \<in> set ds" and "dep \<in> set (deposits s)"
  shows "dep\<lparr>d_confirmations := confirmationsAt h dep,
              d_status := (if reaches required (confirmationsAt h dep) then ''confirmed'' else ''confirming'')\<rparr>
           \<in> set (deposits s')"
  using assms
proof (induction ds arbitrary: s)
  case Nil
  then show ?case by simp
next
  case (Cons x xs)
  let ?row = "dep\<lparr>d_confirmations := confirmationsAt h dep,
              d_status := (if reaches required (confirmationsAt h dep) then ''confirmed'' else ''confirming'')\<rparr>"
  obtain e1 s1 where step: "confirmStep (Inr required) h x s = (e1, s1)"
    by (cases "confirmStep (Inr required) h x s")
  with Cons.prems(1) have loop: "forEach (confirmStep (Inr required) h) xs s1 = (None, s')"
    by (auto split: option.splits)
  show ?case
  proof (cases "dep = x")
    case True
    have "?row \<in> set (deposits s1)"
      using confirmStep_this [OF step] Cons.prems(4) True by simp
    moreover have "d_id ?row \<notin> d_id ` set xs"
      using Cons.prems(2) True by simp
    ultimately show ?thesis
      using confirmLoop_other [OF loop] by blast
  next
    case False
    with Cons.prems(3) have in_xs: "dep \<in> set xs" by simp
    then have "d_id dep \<in> d_id ` set xs" by (rule imageI)
    moreover have "d_id x \<notin> d_id ` set xs" using Cons.prems(2) by simp
    ultimately have "d_id dep \<noteq> d_id x" by metis
    then have "dep \<in> set (deposits s1)"
      using confirmStep_other [OF step Cons.prems(4)] by simp
    then show ?thesis
      using Cons.IH [OF loop _ in_xs] Cons.prems(2) by simp
  qed
qed

lemma findPending_ids:
  "distinct (map d_id (deposits s)) \<Longrightarrow> distinct (map d_id (findPending chain network s))"
  by (simp add: findPending_def distinct_map_filter)

lemma findPending_subset:
  "dep \<in> set (findPending chain network s) \<Longrightarrow> dep \<in> set (deposits s)"
  by (simp add: findPending_def)

section \<open>Confirmed rows are inert\<close>

lemma passLoop_eq:
  "passLoop p s = forEach (confirmStep (passRequired p) (passHeight p)) (passSelects p s) s"
  by (cases p) (simp_all add: tronConfirmationLoop_def evmConfirmationLoop_def)

lemma runPass_eq: "runPass p s = snd (passLoop p s)"
  by (cases p) (simp_all add: updateTronConfirmations_def updateEvmConfirmations_def)

lemma passRequired_Tron: "passRequired (TronPass network h) = Inr (tronRequired network)"
  by (simp add: tron_req)

lemma passSelects_subset: "dep \<in> set (passSelects p s) \<Longrightarrow> dep \<in> set (deposits s)"
  by (cases p) (simp_all add: findPending_subset)

lemma passSelects_status: "dep \<in> set (passSelects p s) \<Longrightarrow> d_status dep \<noteq> ''confirmed''"
  by (cases p) (auto dest: findPending_status)

lemma passSelects_ids:
  "distinct (map d_id (deposits s)) \<Longrightarrow> distinct (map d_id (passSelects p s))"
  by (cases p) (simp_all add: findPending_ids)

text \<open>When the required count cannot be read, the loop throws at its first deposit.\<close>

lemma confirmLoop_unreadable:
  "forEach (confirmStep (Inl e) h) ds s = (if ds = [] then (None, s) else (Some e, s))"
  by (cases ds) (simp_all add: confirmStep_def Let_def)

lemma depositUpdate_without:
  "depositUpdate i c st (withoutDeposits X s) = withoutDeposits X (depositUpdate i c st s)"
proof -
  have comm: "filter (\<lambda>r. d_id r \<notin> X)
          (map (\<lambda>r. if d_id r = i then r\<lparr>d_confirmations := c, d_status := st\<rparr> else r) xs)
      = map (\<lambda>r. if d_id r = i then r\<lparr>d_confirmations := c, d_status := st\<rparr> else r)
          (filter (\<lambda>r. d_id r \<notin> X) xs)" for xs
    by (induction xs) auto
  show ?thesis
    by (simp add: depositUpdate_def withoutDeposits_def comm)
qed

lemma withoutDeposits_frame [simp]:
  "tokens (withoutDeposits X s) = tokens s"
  "walletBalances (withoutDeposits X s) = walletBalances s"
  by (simp_all add: withoutDeposits_def)

lemma updateWalletBalance_without:
  "updateWalletBalance dep (withoutDeposits X s) =
     (case updateWalletBalance dep s of Inl e \<Rightarrow> Inl e | Inr s' \<Rightarrow> Inr (withoutDeposits X s'))"
  by (simp add: updateWalletBalance_eq withoutDeposits_def split: option.splits)

lemma confirmStep_without:
  "confirmStep req h dep (withoutDeposits X s) =
     (case confirmStep req h dep s of (e, s') \<Rightarrow> (e, withoutDeposits X s'))"
  by (simp add: confirmStep_def Let_def depositUpdate_without updateWalletBalance_without
      split: sum.splits)

lemma confirmLoop_without:
  "forEach (confirmStep req h) ds (withoutDeposits X s) =
     (case forEach (confirmStep req h) ds s of (e, s') \<Rightarrow> (e, withoutDeposits X s'))"
proof (induction ds arbitrary: s)
  case Nil
  then show ?case by simp
next
  case (Cons x xs)
  obtain e1 s1 where step: "confirmStep req h x s = (e1, s1)"
    by (cases "confirmStep req h x s")
  then have step': "confirmStep req h x (withoutDeposits X s) = (e1, withoutDeposits X s1)"
    by (simp add: confirmStep_without)
  show ?case
    using step step' Cons.IH [of s1] by (cases e1) simp_all
qed

text \<open>The invariant: ids are distinct and the rows with an id of \<open>X\<close> are confirmed.\<close>

lemma findPending_without:
  assumes "\<forall>r \<in> set (deposits s). d_id r \<in> X \<longrightarrow> d_status r = ''confirmed''"
  shows "findPending chain network (withoutDeposits X s) = findPending chain network s"
proof -
  have "filter (\<lambda>d. d_blockchain d = chain \<and> d_network d = network
                \<and> (d_status d = ''pending'' \<or> d_status d = ''confirming'')
                \<and> d_blockNumber d \<noteq> None \<and> d_id d \<notin> X) (deposits s)
       = filter (\<lambda>d. d_blockchain d = chain \<and> d_network d = network
                \<and> (d_status d = ''pending'' \<or> d_status d = ''confirming'')
                \<and> d_blockNumber d \<noteq> None) (deposits s)"
    using assms by (intro filter_cong refl) auto
  then show ?thesis
    by (simp add: findPending_def withoutDeposits_def conj_commute conj_left_commute)
qed

lemma passSelects_without:
  assumes "\<forall>r \<in> set (deposits s). d_id r \<in> X \<longrightarrow> d_status r = ''confirmed''"
  shows "passSelects p (withoutDeposits X s) = passSelects p s"
  by (cases p) (simp_all add: findPending_without [OF assms])

lemma distinct_same_id:
  "distinct (map d_id xs) \<Longrightarrow> x \<in> set xs \<Longrightarrow> y \<in> set xs \<Longrightarrow> d_id x = d_id y \<Longrightarrow> x = y"
  by (meson distinct_map inj_on_eq_iff)

lemma confirmed_not_selected:
  assumes "distinct (map d_id (deposits s))" and "r \<in> set (deposits s)"
    and "d_status r = ''confirmed''"
  shows "d_id r \<notin> d_id ` set (passSelects p s)"
proof
  assume "d_id r \<in> d_id ` set (passSelects p s)"
  then obtain dep where dep: "dep \<in> set (passSelects p s)" and id: "d_id dep = d_id r"
    by auto
  from dep have "dep \<in> set (deposits s)" by (rule passSelects_subset)
  with assms(1,2) id have "dep = r" using distinct_same_id by blast
  with dep assms(3) show False using passSelects_status by blast
qed

lemma pass_keeps_confirmed:
  assumes "distinct (map d_id (deposits s))" and "r \<in> set (deposits s)"
    and "d_status r = ''confirmed''"
  shows "r \<in> set (deposits (runPass p s))"
proof -
  obtain e s' where loop: "passLoop p s = (e, s')"
    by (cases "passLoop p s")
  then have "forEach (confirmStep (passRequired p) (passHeight p)) (passSelects p s) s = (e, s')"
    by (simp add: passLoop_eq)
  from confirmLoop_other [OF this assms(2) confirmed_not_selected [OF assms]]
  show ?thesis by (simp add: runPass_eq loop)
qed

lemma pass_ids:
  "map d_id (deposits (runPass p s)) = map d_id (deposits s)"
proof -
  obtain e s' where loop: "passLoop p s = (e, s')"
    by (cases "passLoop p s")
  then have "forEach (confirmStep (passRequired p) (passHeight p)) (passSelects p s) s = (e, s')"
    by (simp add: passLoop_eq)
  from confirmLoop_frame [OF this] show ?thesis
    by (simp add: runPass_eq loop)
qed

lemma pass_invariant:
  assumes "distinct (map d_id (deposits s))"
    and "\<forall>r \<in> set (deposits s). d_id r \<in> X \<longrightarrow> d_status r = ''confirmed''"
  shows "distinct (map d_id (deposits (runPass p s)))
     \<and> (\<forall>r \<in> set (deposits (runPass p s)). d_id r \<in> X \<longrightarrow> d_status r = ''confirmed'')"
proof (intro conjI ballI impI)
  let ?s' = "runPass p s"
  show dist: "distinct (map d_id (deposits ?s'))"
    using assms(1) by (simp add: pass_ids)
  fix r' assume r': "r' \<in> set (deposits ?s')" and X: "d_id r' \<in> X"
  from r' have "d_id r' \<in> set (map d_id (deposits ?s'))" by simp
  then have "d_id r' \<in> set (map d_id (deposits s))" by (simp add: pass_ids)
  then obtain r where r: "r \<in> set (deposits s)" and id: "d_id r = d_id r'" by auto
  with X assms(2) have conf: "d_status r = ''confirmed''" by simp
  from pass_keeps_confirmed [OF assms(1) r conf] have "r \<in> set (deposits ?s')" .
  with dist r' id have "r = r'" using distinct_same_id by blast
  with conf show "d_status r' = ''confirmed''" by simp
qed

lemma pass_without:
  assumes "\<forall>r \<in> set (deposits s). d_id r \<in> X \<longrightarrow> d_status r = ''confirmed''"
  shows "runPass p (withoutDeposits X s) = withoutDeposits X (runPass p s)"
  by (simp add: runPass_eq passLoop_eq passSelects_without [OF assms]
      confirmLoop_without split: prod.splits)

lemma runPasses_without:
  assumes "distinct (map d_id (deposits s))"
    and "\<forall>r \<in> set (deposits s). d_id r \<in> X \<longrightarrow> d_status r = ''confirmed''"
  shows "runPasses ps (withoutDeposits X s) = withoutDeposits X (runPasses ps s)"
  using assms
proof (induction ps arbitrary: s)
  case Nil
  then show ?case by simp
next
  case (Cons p ps)
  note inv = pass_invariant [OF Cons.prems, of p]
  show ?case
    using Cons.IH [of "runPass p s"] inv
    by (simp add: pass_without [OF Cons.prems(2)])
qed

lemma runPasses_keeps_confirmed:
  assumes "distinct (map d_id (deposits s))" and "r \<in> set (deposits s)"
    and "d_status r = ''confirmed''"
  shows "r \<in> set (deposits (runPasses ps s))"
  using assms
proof (induction ps arbitrary: s)
  case Nil
  then show ?case by simp
next
  case (Cons p ps)
  have "distinct (map d_id (deposits (runPass p s)))"
    using Cons.prems(1) by (simp add: pass_ids)
  moreover have "r \<in> set (deposits (runPass p s))"
    using Cons.prems by (rule pass_keeps_confirmed)
  ultimately show ?case
    using Cons.IH [of "runPass p s"] Cons.prems(3) by simp
qed

lemma tronRequired_mainnet: "tronRequired ''mainnet'' = Some 20"
  by (simp add: tronRequired_def CONFIRMATION_BLOCKS_def)

lemmas tron_eval =
  updateTronConfirmations_def tronConfirmationLoop_eq tronRequired_mainnet findPending_def
  confirmStep_def reaches_def depositUpdate_def updateWalletBalance_def balanceKey_def
  tronDeposit_def trxToken_def

section \<open>Heights below the block of a deposit\<close>

text \<open>
  A pass at height 95 over a deposit recorded at block 100 stores the confirmations
  \<open>-5\<close>, not 0.
\<close>

theorem negative_difference_counterexample:
  "map (\<lambda>d. (d_id d, d_confirmations d, d_status d))
     (deposits (updateTronConfirmations ''mainnet'' 95 reorgDb)) = [(1, - 5, ''confirming'')]"
  by (simp add: tron_eval reorgDb_def)

text \<open>
  C7, as amended. When the loop of a pass reaches a deposit whose block number is above the
  current height, it stores the negative difference itself as the confirmations, sets
  the status to \<open>confirming\<close>, throws nothing and leaves the wallet balances as they
  are. In a pass of either updater that runs to its end, the row of every such selected
  deposit holds these values.
\<close>

theorem negative_difference_persisted:
  assumes "d_blockNumber dep = Some bn" and "h < bn"
  shows "confirmStep (Inr required) h dep s =
           (None, s\<lparr>deposits := map (\<lambda>r. if d_id r = d_id dep
                                         then r\<lparr>d_confirmations := h - bn, d_status := ''confirming''\<rparr>
                                         else r) (deposits s)\<rparr>)
       \<and> h - bn < 0
       \<and> walletBalances (snd (confirmStep (Inr required) h dep s)) = walletBalances s
       \<and> (fst (passLoop p s) = None \<and> passHeight p = h
            \<and> distinct (map d_id (deposits s))
            \<and> dep \<in> set (passSelects p s)
          \<longrightarrow> dep\<lparr>d_confirmations := h - bn, d_status := ''confirming''\<rparr>
                \<in> set (deposits (runPass p s)))"
proof -
  have conf: "confirmationsAt h dep = h - bn"
    using assms(1) by (simp add: confirmationsAt_def)
  have below: "\<not> reaches req (confirmationsAt h dep)" for req
    using assms(2) by (cases req) (simp_all add: reaches_def conf)
  have step: "confirmStep (Inr required) h dep s =
           (None, s\<lparr>deposits := map (\<lambda>r. if d_id r = d_id dep
                                         then r\<lparr>d_confirmations := h - bn, d_status := ''confirming''\<rparr>
                                         else r) (deposits s)\<rparr>)"
    using confirmStep_below [OF below, of required s] by (simp add: conf depositUpdate_def)
  have pass: "dep\<lparr>d_confirmations := h - bn, d_status := ''confirming''\<rparr>
                \<in> set (deposits (runPass p s))"
    if fin: "fst (passLoop p s) = None" and height: "passHeight p = h"
      and dist: "distinct (map d_id (deposits s))"
      and sel: "dep \<in> set (passSelects p s)"
  proof -
    obtain s' where loop: "forEach (confirmStep (passRequired p) h) (passSelects p s) s = (None, s')"
      using fin height by (cases "passLoop p s") (simp add: passLoop_eq)
    obtain req where req: "passRequired p = Inr req"
      using loop sel by (cases "passRequired p") (auto simp: confirmLoop_unreadable split: if_splits)
    from loop req have loop': "forEach (confirmStep (Inr req) h) (passSelects p s) s = (None, s')"
      by simp
    from confirmLoop_processed [OF loop' passSelects_ids [OF dist] sel passSelects_subset [OF sel]]
    show ?thesis
      using below [of req] loop height
      by (simp add: conf runPass_eq passLoop_eq)
  qed
  show ?thesis
    using step assms(2) pass by simp
qed

theorem negative_difference_persisted_witness:
  "d_blockNumber (tronDeposit 1 100 ''confirming'' 3 5) = Some 100 \<and> (95::int) < 100
   \<and> fst (passLoop (TronPass ''mainnet'' 95) reorgDb) = None
   \<and> distinct (map d_id (deposits reorgDb))
   \<and> tronDeposit 1 100 ''confirming'' 3 5 \<in> set (passSelects (TronPass ''mainnet'' 95) reorgDb)
   \<and> tronDeposit 1 100 ''confirming'' (- 5) 5 \<in> set (deposits (updateTronConfirmations ''mainnet'' 95 reorgDb))
   \<and> walletBalances (snd (confirmStep (Inr (Some 20)) 95 (tronDeposit 1 100 ''confirming'' 3 5) reorgDb))
       = walletBalances reorgDb"
proof -
  have bn: "d_blockNumber (tronDeposit 1 100 ''confirming'' 3 5) = Some 100"
    by (simp add: tronDeposit_def)
  have lt: "(95::int) < 100" by simp
  have fin: "fst (passLoop (TronPass ''mainnet'' 95) reorgDb) = None"
    by (simp add: tron_eval reorgDb_def)
  have dist: "distinct (map d_id (deposits reorgDb))"
    by (simp add: reorgDb_def)
  have sel: "tronDeposit 1 100 ''confirming'' 3 5 \<in> set (passSelects (TronPass ''mainnet'' 95) reorgDb)"
    by (simp add: findPending_def reorgDb_def tronDeposit_def)
  have row: "(tronDeposit 1 100 ''confirming'' 3 5)\<lparr>d_confirmations := 95 - 100, d_status := ''confirming''\<rparr>
     = tronDeposit 1 100 ''confirming'' (- 5) 5"
    by (simp add: tronDeposit_def)
  note inst = negative_difference_persisted [OF bn lt, of "Some 20" reorgDb "TronPass ''mainnet'' 95"]
  from inst fin dist sel row
  have a: "tronDeposit 1 100 ''confirming'' (- 5) 5 \<in> set (deposits (updateTronConfirmations ''mainnet'' 95 reorgDb))"
    by simp
  from inst have b: "walletBalances (snd (confirmStep (Inr (Some 20)) 95 (tronDeposit 1 100 ''confirming'' 3 5) reorgDb))
       = walletBalances reorgDb"
    by blast
  show ?thesis
    by (intro conjI bn lt fin dist sel a b)
qed

section \<open>Crediting once\<close>





section \<open>A credit that fails\<close>

text \<open>
  C10. Let the deposits a pass selects be \<open>before\<close>, then \<open>dep\<close>, then \<open>after\<close>; let
  the loop get through \<open>before\<close>, let \<open>dep\<close> reach the required count, and let
  crediting \<open>dep\<close> fail (its token or its spot balance row is missing). Then the pass
  stops with that error right after it has stored \<open>dep\<close> as \<open>confirmed\<close>: no balance
  changes any more and the rows of \<open>after\<close> stay as they were. In every later sequence
  of passes the row of \<open>dep\<close> stays as stored, is never selected, and the passes run as
  they would without it: it is never credited.
\<close>

theorem failed_credit_aborts_pass:
  assumes dist: "distinct (map d_id (deposits s))"
    and sel: "passSelects p s = before @ dep # after"
    and req: "passRequired p = Inr required"
    and pre: "forEach (confirmStep (Inr required) (passHeight p)) before s = (None, s1)"
    and up: "reaches required (confirmationsAt (passHeight p) dep)"
    and fail: "updateWalletBalance dep s = Inl e"
  shows "passLoop p s =
           (Some e, depositUpdate (d_id dep) (confirmationsAt (passHeight p) dep) ''confirmed'' s1)
       \<and> walletBalances (runPass p s) = walletBalances s1
       \<and> (\<forall>r \<in> set after. r \<in> set (deposits (runPass p s)))
       \<and> dep\<lparr>d_confirmations := confirmationsAt (passHeight p) dep, d_status := ''confirmed''\<rparr>
            \<in> set (deposits (runPasses ps (runPass p s)))
       \<and> dep\<lparr>d_confirmations := confirmationsAt (passHeight p) dep, d_status := ''confirmed''\<rparr>
            \<notin> set (passSelects q (runPasses ps (runPass p s)))
       \<and> runPasses ps (withoutDeposits {d_id dep} (runPass p s))
           = withoutDeposits {d_id dep} (runPasses ps (runPass p s))"
proof -
  let ?h = "passHeight p"
  let ?f = "confirmStep (Inr required) ?h"
  let ?s2 = "depositUpdate (d_id dep) (confirmationsAt ?h dep) ''confirmed'' s1"
  let ?s' = "runPass p s"
  let ?row = "dep\<lparr>d_confirmations := confirmationsAt ?h dep, d_status := ''confirmed''\<rparr>"
  have dep_sel: "dep \<in> set (passSelects p s)"
    using sel by simp
  have dep_in: "dep \<in> set (deposits s)"
    using dep_sel by (rule passSelects_subset)
  have pending: "d_status dep \<noteq> ''confirmed''"
    using dep_sel by (rule passSelects_status)
  have ids: "distinct (map d_id (before @ dep # after))"
    using passSelects_ids [OF dist, of p] sel by simp
  have frame1: "tokens s1 = tokens s" "dom (walletBalances s1) = dom (walletBalances s)"
    using confirmLoop_frame [OF pre] by simp_all
  have "updateWalletBalance dep ?s2 = Inl e"
    by (rule updateWalletBalance_Inl_transfer [OF fail]) (simp_all add: frame1)
  then have step: "?f dep s1 = (Some e, ?s2)"
    using up pending by (simp add: confirmStep_credit)
  have loop: "passLoop p s = (Some e, ?s2)"
    by (simp add: passLoop_eq req sel forEach_append pre step)
  then have s': "?s' = ?s2"
    by (simp add: runPass_eq)
  have bal: "walletBalances ?s' = walletBalances s1"
    by (simp add: s')
  have dep_id: "d_id dep \<notin> d_id ` set before"
    using ids by auto
  have rest: "\<forall>r \<in> set after. r \<in> set (deposits ?s')"
  proof
    fix r assume r: "r \<in> set after"
    then have "r \<in> set (passSelects p s)" using sel by simp
    then have r_in: "r \<in> set (deposits s)" by (rule passSelects_subset)
    from r have rid: "d_id r \<in> d_id ` set after" by (rule imageI)
    with ids have "d_id r \<notin> d_id ` set before" and ne: "d_id r \<noteq> d_id dep" by auto
    with confirmLoop_other [OF pre r_in] have "r \<in> set (deposits s1)" by simp
    then show "r \<in> set (deposits ?s')"
      using ne by (simp add: s' depositUpdate_other)
  qed
  have "dep \<in> set (deposits s1)"
    using confirmLoop_other [OF pre dep_in dep_id] .
  then have row: "?row \<in> set (deposits ?s')"
    by (simp add: s' depositUpdate_this)
  have dist': "distinct (map d_id (deposits ?s'))"
    using dist by (simp add: pass_ids)
  have row_conf: "d_status ?row = ''confirmed''" by simp
  have kept: "?row \<in> set (deposits (runPasses ps ?s'))"
    by (rule runPasses_keeps_confirmed [OF dist' row row_conf])
  have unsel: "?row \<notin> set (passSelects q (runPasses ps ?s'))"
    using passSelects_status [of ?row q "runPasses ps ?s'"] by auto
  have conf': "\<forall>r \<in> set (deposits ?s'). d_id r \<in> {d_id dep} \<longrightarrow> d_status r = ''confirmed''"
  proof (intro ballI impI)
    fix r assume r: "r \<in> set (deposits ?s')" and "d_id r \<in> {d_id dep}"
    then have "d_id ?row = d_id r" by simp
    with dist' row r have "?row = r" using distinct_same_id by blast
    with row_conf show "d_status r = ''confirmed''" by simp
  qed
  have inert: "runPasses ps (withoutDeposits {d_id dep} ?s') = withoutDeposits {d_id dep} (runPasses ps ?s')"
    by (rule runPasses_without [OF dist' conf'])
  show ?thesis
    by (intro conjI loop bal rest kept unsel inert)
qed

theorem failed_credit_aborts_pass_witness:
  "distinct (map d_id (deposits stuckDb))
   \<and> passSelects (TronPass ''mainnet'' 120) stuckDb
       = [] @ tronDeposit 1 100 ''pending'' 0 5 # [tronDeposit 2 90 ''pending'' 0 4]
   \<and> passRequired (TronPass ''mainnet'' 120) = Inr (Some 20)
   \<and> forEach (confirmStep (Inr (Some 20)) 120) [] stuckDb = (None, stuckDb)
   \<and> reaches (Some 20) (confirmationsAt 120 (tronDeposit 1 100 ''pending'' 0 5))
   \<and> updateWalletBalance (tronDeposit 1 100 ''pending'' 0 5) stuckDb = Inl (Error ''Wallet balance not found'')
   \<and> fst (tronConfirmationLoop ''mainnet'' 120 stuckDb) = Some (Error ''Wallet balance not found'')
   \<and> walletBalances (updateTronConfirmations ''mainnet'' 120 stuckDb) = walletBalances stuckDb
   \<and> tronDeposit 2 90 ''pending'' 0 4 \<in> set (deposits (updateTronConfirmations ''mainnet'' 120 stuckDb))
   \<and> tronDeposit 1 100 ''confirmed'' 20 5
        \<in> set (deposits (runPasses [TronPass ''mainnet'' 121] (updateTronConfirmations ''mainnet'' 120 stuckDb)))"
proof -
  let ?p = "TronPass ''mainnet'' 120"
  have dist: "distinct (map d_id (deposits stuckDb))"
    by (simp add: stuckDb_def tronDeposit_def)
  have sel: "passSelects ?p stuckDb
       = [] @ tronDeposit 1 100 ''pending'' 0 5 # [tronDeposit 2 90 ''pending'' 0 4]"
    by (simp add: findPending_def stuckDb_def tronDeposit_def)
  have req: "passRequired ?p = Inr (Some 20)"
    by (simp add: tron_req tronRequired_mainnet)
  have pre: "forEach (confirmStep (Inr (Some 20)) (passHeight ?p)) [] stuckDb = (None, stuckDb)"
    by simp
  have up: "reaches (Some 20) (confirmationsAt (passHeight ?p) (tronDeposit 1 100 ''pending'' 0 5))"
    by (simp add: reaches_def confirmationsAt_def tronDeposit_def)
  have fail: "updateWalletBalance (tronDeposit 1 100 ''pending'' 0 5) stuckDb = Inl (Error ''Wallet balance not found'')"
    by (simp add: updateWalletBalance_def stuckDb_def tronDeposit_def trxToken_def balanceKey_def)
  have row: "(tronDeposit i 100 ''pending'' 0 5)
               \<lparr>d_confirmations := confirmationsAt 120 (tronDeposit i 100 ''pending'' 0 5),
                d_status := ''confirmed''\<rparr> = tronDeposit i 100 ''confirmed'' 20 5" for i
    by (simp add: tronDeposit_def confirmationsAt_def)
  note inst = failed_credit_aborts_pass [OF dist sel req pre up fail, of "[TronPass ''mainnet'' 121]" ?p]
  from inst have err: "fst (tronConfirmationLoop ''mainnet'' 120 stuckDb) = Some (Error ''Wallet balance not found'')"
    by simp
  from inst have bal: "walletBalances (updateTronConfirmations ''mainnet'' 120 stuckDb) = walletBalances stuckDb"
    by simp
  from inst have "\<forall>r \<in> set [tronDeposit 2 90 ''pending'' 0 4].
      r \<in> set (deposits (runPass ?p stuckDb))"
    by blast
  then have rest: "tronDeposit 2 90 ''pending'' 0 4 \<in> set (deposits (updateTronConfirmations ''mainnet'' 120 stuckDb))"
    by simp
  from inst have "(tronDeposit 1 100 ''pending'' 0 5)
               \<lparr>d_confirmations := confirmationsAt (passHeight ?p) (tronDeposit 1 100 ''pending'' 0 5),
                d_status := ''confirmed''\<rparr>
        \<in> set (deposits (runPasses [TronPass ''mainnet'' 121] (runPass ?p stuckDb)))"
    by blast
  then have kept: "tronDeposit 1 100 ''confirmed'' 20 5
        \<in> set (deposits (runPasses [TronPass ''mainnet'' 121] (updateTronConfirmations ''mainnet'' 120 stuckDb)))"
    using row [of 1] by simp
  have pre': "forEach (confirmStep (Inr (Some 20)) 120) [] stuckDb = (None, stuckDb)"
    by simp
  have up': "reaches (Some 20) (confirmationsAt 120 (tronDeposit 1 100 ''pending'' 0 5))"
    using up by simp
  show ?thesis
    by (intro conjI dist sel req pre' up' fail err bal rest kept)
qed

section \<open>EVM transactions\<close>

lemmas evm_eval =
  processEvmTransaction_def getTokenForTransaction_def getTransactionAmount_def depositSave_def
  findWallets_def formatUnits_def toLowerCase_def toLowerChar_def char_of_eval isTransfer_def
  depositTriple_def ethDb_def ethWallet_def ethToken_def usdcToken_def nativeTx_def erc20Tx_def

lemma native_once:
  "deposits (processEvmTransaction ''eth'' ''mainnet'' nativeTx ethDb) =
     [\<lparr>d_id = 1, d_userId = ''U'', d_walletId = ''w1'', d_tokenId = ''t0'', d_txHash = ''0xh1'',
       d_amount = 1, d_blockchain = ''eth'', d_network = ''mainnet'', d_networkVersion = ''NATIVE'',
       d_blockNumber = Some 1000, d_status = ''pending'', d_confirmations = 0, d_from = ''0x1'',
       d_contractAddress = None, d_blockHash = ''0xb1''\<rparr>]"
  by (simp add: evm_eval)

text \<open>
  C4. A transaction with calldata sent to the token contract \<open>0xC\<close>, whose receipt
  holds \<open>Transfer(0x1, 0xabc, 5000000)\<close> with \<open>0xabc\<close> a monitored wallet: the token is
  found and the amount of the log would be 5, but the wallet is looked up under the
  contract's address, so the state stays as it was and no deposit is written.
\<close>

theorem erc20_transfer_not_recorded:
  "getTokenForTransaction ''eth'' erc20Tx ethDb = Some usdcToken
   \<and> getTransactionAmount erc20Tx usdcToken = Some 5
   \<and> processEvmTransaction ''eth'' ''mainnet'' erc20Tx ethDb = ethDb
   \<and> deposits (processEvmTransaction ''eth'' ''mainnet'' erc20Tx ethDb) = []"
  by (simp add: evm_eval)

section \<open>Inserts\<close>

lemma depositSave_cases:
  "depositSave row s = (e, s') \<Longrightarrow>
     (e \<noteq> None \<and> s' = s \<and> depositTriple row \<in> set (map depositTriple (deposits s)))
   \<or> (e = None \<and> depositTriple row \<notin> set (map depositTriple (deposits s))
        \<and> s' = s\<lparr>deposits := deposits s @ [row\<lparr>d_id := depositSeq s\<rparr>], depositSeq := Suc (depositSeq s)\<rparr>)"
  by (auto simp: depositSave_def split: if_splits)

lemma depositTriple_id [simp]: "depositTriple (row\<lparr>d_id := n\<rparr>) = depositTriple row"
  by (simp add: depositTriple_def)

lemma depositSave_unique:
  assumes "depositSave row s = (e, s')"
    and "distinct (map depositTriple (deposits s))"
  shows "distinct (map depositTriple (deposits s'))"
  using depositSave_cases [OF assms(1)] assms(2) by auto

lemma processEvmTransaction_cases:
  "processEvmTransaction chain network tx s = s
   \<or> (\<exists>row. processEvmTransaction chain network tx s = snd (depositSave row s))"
  by (auto simp: processEvmTransaction_def Let_def split: option.splits)

lemma processEvmTransaction_unique:
  assumes "distinct (map depositTriple (deposits s))"
  shows "distinct (map depositTriple (deposits (processEvmTransaction chain network tx s)))"
proof -
  from processEvmTransaction_cases [of chain network tx s]
  show ?thesis
  proof
    assume "processEvmTransaction chain network tx s = s"
    with assms show ?thesis by simp
  next
    assume "\<exists>row. processEvmTransaction chain network tx s = snd (depositSave row s)"
    then obtain row where row: "processEvmTransaction chain network tx s = snd (depositSave row s)"
      by blast
    obtain e s' where sv: "depositSave row s = (e, s')" by (cases "depositSave row s")
    from depositSave_unique [OF sv assms] row sv show ?thesis by simp
  qed
qed

lemma processBitcoinAddress_cases:
  "processBitcoinAddress chain network tx out address s = (None, s)
   \<or> (\<exists>e. processBitcoinAddress chain network tx out address s = (Some e, s))
   \<or> (\<exists>row. processBitcoinAddress chain network tx out address s = depositSave row s)"
  by (auto simp: processBitcoinAddress_def split: option.splits sum.splits)

lemma processBitcoinAddress_unique:
  assumes "processBitcoinAddress chain network tx out address s = (e, s')"
    and "distinct (map depositTriple (deposits s))"
  shows "distinct (map depositTriple (deposits s'))"
proof -
  from processBitcoinAddress_cases [of chain network tx out address s]
  consider "s' = s" | row where "depositSave row s = (e, s')"
    using assms(1) by auto
  then show ?thesis
  proof cases
    case 1
    with assms(2) show ?thesis by simp
  next
    case 2
    from depositSave_unique [OF 2 assms(2)] show ?thesis .
  qed
qed

lemma processBitcoinTransaction_unique:
  assumes "processBitcoinTransaction chain network tx s = (e, s')"
    and "distinct (map depositTriple (deposits s))"
  shows "distinct (map depositTriple (deposits s'))"
proof (rule forEach_invariant [where P = "\<lambda>t. distinct (map depositTriple (deposits t))"
      and xs = "btx_vout tx" and s = s and e = e
      and f = "\<lambda>out. forEach (processBitcoinAddress chain network tx out)
                    (case o_addresses out of Some as \<Rightarrow> as | None \<Rightarrow> [])"])
  show "distinct (map depositTriple (deposits s))" by (rule assms)
  show "forEach (\<lambda>out. forEach (processBitcoinAddress chain network tx out)
                    (case o_addresses out of Some as \<Rightarrow> as | None \<Rightarrow> [])) (btx_vout tx) s = (e, s')"
    using assms(1) by (simp add: processBitcoinTransaction_def)
  show "distinct (map depositTriple (deposits t'))"
    if "out \<in> set (btx_vout tx)"
      and inv: "distinct (map depositTriple (deposits t))"
      and run: "forEach (processBitcoinAddress chain network tx out)
                    (case o_addresses out of Some as \<Rightarrow> as | None \<Rightarrow> []) t = (e', t')"
    for out t e' t'
  proof (rule forEach_invariant [where P = "\<lambda>t. distinct (map depositTriple (deposits t))"
      and f = "processBitcoinAddress chain network tx out" and s = t and e = e'
      and xs = "case o_addresses out of Some as \<Rightarrow> as | None \<Rightarrow> []"])
    show "distinct (map depositTriple (deposits t))" by (rule inv)
    show "forEach (processBitcoinAddress chain network tx out)
            (case o_addresses out of Some as \<Rightarrow> as | None \<Rightarrow> []) t = (e', t')" by (rule run)
    show "distinct (map depositTriple (deposits u'))"
      if "a \<in> set (case o_addresses out of Some as \<Rightarrow> as | None \<Rightarrow> [])"
        and "distinct (map depositTriple (deposits u))"
        and "processBitcoinAddress chain network tx out a u = (e'', u')"
      for a u e'' u'
      using processBitcoinAddress_unique [OF that(3) that(2)] .
  qed
qed


lemma processTronTransaction_unique:
  assumes "processTronTransaction numberDivide tronWeb network block tx s = (e, s')"
    and "distinct (map depositTriple (deposits s))"
  shows "distinct (map depositTriple (deposits s'))"
proof -
  have "s' = s \<or> (\<exists>row. depositSave row s = (e, s'))"
    using assms(1)
    by (auto simp: processTronTransaction_def Let_def split: if_splits option.splits)
  then show ?thesis
    using assms(2) depositSave_unique by blast
qed

lemma processTronBlock_unique:
  assumes "distinct (map depositTriple (deposits s))"
  shows "distinct (map depositTriple (deposits (processTronBlock numberDivide tronWeb network block s)))"
proof -
  obtain e s' where run: "forEach (processTronTransaction numberDivide tronWeb network block)
            (case tb_transactions block of Some txs \<Rightarrow> txs | None \<Rightarrow> []) s = (e, s')"
    by (cases "forEach (processTronTransaction numberDivide tronWeb network block)
            (case tb_transactions block of Some txs \<Rightarrow> txs | None \<Rightarrow> []) s")
  have "distinct (map depositTriple (deposits s'))"
  proof (rule forEach_invariant [where P = "\<lambda>t. distinct (map depositTriple (deposits t))"
      and f = "processTronTransaction numberDivide tronWeb network block" and s = s and e = e
      and xs = "case tb_transactions block of Some txs \<Rightarrow> txs | None \<Rightarrow> []"])
    show "distinct (map depositTriple (deposits s))" by (rule assms)
    show "forEach (processTronTransaction numberDivide tronWeb network block)
            (case tb_transactions block of Some txs \<Rightarrow> txs | None \<Rightarrow> []) s = (e, s')" by (rule run)
    show "distinct (map depositTriple (deposits u'))"
      if "a \<in> set (case tb_transactions block of Some txs \<Rightarrow> txs | None \<Rightarrow> [])"
        and "distinct (map depositTriple (deposits u))"
        and "processTronTransaction numberDivide tronWeb network block a u = (e'', u')"
      for a u e'' u'
      using processTronTransaction_unique [OF that(3) that(2)] .
  qed
  then show ?thesis by (simp add: processTronBlock_def run)
qed

lemma processXrpTransaction_unique:
  assumes "distinct (map depositTriple (deposits s))"
  shows "distinct (map depositTriple (deposits (processXrpTransaction chain network tx s)))"
proof -
  have "processXrpTransaction chain network tx s = s
        \<or> (\<exists>row. processXrpTransaction chain network tx s = snd (depositSave row s))"
    by (auto simp: processXrpTransaction_def split: option.splits sum.splits)
  then show ?thesis
  proof
    assume "processXrpTransaction chain network tx s = s"
    with assms show ?thesis by simp
  next
    assume "\<exists>row. processXrpTransaction chain network tx s = snd (depositSave row s)"
    then obtain row where row: "processXrpTransaction chain network tx s = snd (depositSave row s)"
      by blast
    obtain e s' where sv: "depositSave row s = (e, s')" by (cases "depositSave row s")
    from depositSave_unique [OF sv assms] row sv show ?thesis by simp
  qed
qed

lemma depositSave_keeps [simp]:
  "wallets (snd (depositSave row s)) = wallets s"
  "tokens (snd (depositSave row s)) = tokens s"
  by (simp_all add: depositSave_def)

lemma depositSave_again:
  "snd (depositSave row (snd (depositSave row s))) = snd (depositSave row s)"
  by (simp add: depositSave_def)

lemma processEvmTransaction_row:
  "\<exists>r. \<forall>t. wallets t = wallets (s::db) \<and> tokens t = tokens s \<longrightarrow>
      processEvmTransaction chain network tx t
        = (case r of None \<Rightarrow> t | Some row \<Rightarrow> snd (depositSave row t))"
proof -
  let ?walletMap = "map_of (rev (map (\<lambda>w. (toLowerCase (w_address w), w)) (findWallets chain network s)))"
  let ?r = "case tx_to tx of
              None \<Rightarrow> None
            | Some to \<Rightarrow>
                if toLowerCase to = [] then None
                else case ?walletMap (toLowerCase to) of
                  None \<Rightarrow> None
                | Some wallet \<Rightarrow>
                    (case getTokenForTransaction chain tx s of
                       None \<Rightarrow> None
                     | Some tok \<Rightarrow>
                         (case getTransactionAmount tx tok of
                            None \<Rightarrow> None
                          | Some amt \<Rightarrow>
                              Some \<lparr>d_id = 0, d_userId = w_userId wallet, d_walletId = w_id wallet,
                                d_tokenId = t_id tok, d_txHash = tx_hash tx, d_amount = amt,
                                d_blockchain = chain, d_network = network,
                                d_networkVersion = t_networkVersion tok,
                                d_blockNumber = tx_blockNumber tx, d_status = ''pending'',
                                d_confirmations = 0, d_from = tx_from tx,
                                d_contractAddress = t_contractAddress tok,
                                d_blockHash = tx_blockHash tx\<rparr>))"
  have "processEvmTransaction chain network tx t
        = (case ?r of None \<Rightarrow> t | Some row \<Rightarrow> snd (depositSave row t))"
    if "wallets t = wallets s \<and> tokens t = tokens s" for t
  proof -
    from that have w: "findWallets chain network t = findWallets chain network s"
      and g: "getTokenForTransaction chain tx t = getTokenForTransaction chain tx s"
      by (simp_all add: findWallets_def getTokenForTransaction_def cong: option.case_cong if_cong)
    show ?thesis
      by (simp add: processEvmTransaction_def w g split: option.splits)
  qed
  then show ?thesis by blast
qed

lemma processEvmTransaction_again:
  "processEvmTransaction chain network tx (processEvmTransaction chain network tx s)
     = processEvmTransaction chain network tx s"
proof -
  from processEvmTransaction_row [of s chain network tx] obtain r
    where r: "\<And>t. wallets t = wallets s \<Longrightarrow> tokens t = tokens s \<Longrightarrow>
      processEvmTransaction chain network tx t
        = (case r of None \<Rightarrow> t | Some row \<Rightarrow> snd (depositSave row t))"
    by blast
  show ?thesis
  proof (cases r)
    case None
    with r [of s] show ?thesis by simp
  next
    case (Some row)
    with r [of s] have first: "processEvmTransaction chain network tx s = snd (depositSave row s)"
      by simp
    from Some r [of "snd (depositSave row s)"]
    have "processEvmTransaction chain network tx (snd (depositSave row s))
            = snd (depositSave row (snd (depositSave row s)))"
      by simp
    with first show ?thesis by (simp add: depositSave_again)
  qed
qed

lemma confirmStep_triples:
  assumes "confirmStep req h dep s = (e, s')"
  shows "map depositTriple (deposits s') = map depositTriple (deposits s)"
proof -
  have upd: "map depositTriple (deposits (depositUpdate i c st t)) = map depositTriple (deposits t)"
    for i c st t
    by (simp add: depositUpdate_def depositTriple_def)
  show ?thesis
  proof (cases req)
    case (Inl a)
    with assms show ?thesis by (simp add: confirmStep_def Let_def)
  next
    case (Inr required)
    let ?st = "if reaches required (confirmationsAt h dep) then ''confirmed'' else ''confirming''"
    have "deposits s' = deposits (depositUpdate (d_id dep) (confirmationsAt h dep) ?st s)"
      using assms Inr
      by (auto simp: confirmStep_def confirmationsAt_def Let_def
          split: sum.splits if_splits dest: updateWalletBalance_frame)
    with upd show ?thesis by simp
  qed
qed

lemma pass_triples:
  "map depositTriple (deposits (runPass p s)) = map depositTriple (deposits s)"
proof -
  obtain e s' where loop: "passLoop p s = (e, s')"
    by (cases "passLoop p s")
  then have run: "forEach (confirmStep (passRequired p) (passHeight p)) (passSelects p s) s = (e, s')"
    by (simp add: passLoop_eq)
  have "map depositTriple (deposits s') = map depositTriple (deposits s)"
  proof (rule forEach_invariant [where f = "confirmStep (passRequired p) (passHeight p)"
        and xs = "passSelects p s" and s = s and e = e
        and P = "\<lambda>t. map depositTriple (deposits t) = map depositTriple (deposits s)"])
    show "forEach (confirmStep (passRequired p) (passHeight p)) (passSelects p s) s = (e, s')"
      by (rule run)
    show "map depositTriple (deposits t') = map depositTriple (deposits s)"
      if "x \<in> set (passSelects p s)"
        and "map depositTriple (deposits t) = map depositTriple (deposits s)"
        and "confirmStep (passRequired p) (passHeight p) x t = (e', t')"
      for x t e' t'
      using confirmStep_triples [OF that(3)] that(2) by simp
  qed simp
  then show ?thesis
    by (simp add: runPass_eq loop)
qed

text \<open>
  C2. The service looks nothing up before it inserts; the unique index of the deposits
  table on \<open>(txHash, walletId, tokenId)\<close> is what keeps the rows apart. Where the triples
  of the table are distinct, every path that writes deposits leaves them distinct: the
  EVM transaction, the Bitcoin transaction, the Tron block and the XRP transaction, and
  the passes of the confirmation updaters do not touch the triples. An insert for a
  triple that is already stored throws and adds no row, and an EVM transaction that is
  processed a second time leaves the table as the first time left it.
\<close>

theorem deposit_triples_stay_distinct:
  assumes "distinct (map depositTriple (deposits s))"
  shows "distinct (map depositTriple (deposits (processEvmTransaction chain network tx s)))
       \<and> distinct (map depositTriple (deposits (snd (processBitcoinTransaction chain network btx s))))
       \<and> distinct (map depositTriple (deposits (processTronBlock numberDivide tronWeb network block s)))
       \<and> distinct (map depositTriple (deposits (processXrpTransaction chain network xtx s)))
       \<and> map depositTriple (deposits (runPass p s)) = map depositTriple (deposits s)
       \<and> (depositTriple row \<in> set (map depositTriple (deposits s)) \<longrightarrow>
            depositSave row s = (Some (Error ''duplicate key value violates unique constraint''), s))
       \<and> processEvmTransaction chain network tx (processEvmTransaction chain network tx s)
            = processEvmTransaction chain network tx s"
proof -
  obtain e s' where btc: "processBitcoinTransaction chain network btx s = (e, s')"
    by (cases "processBitcoinTransaction chain network btx s")
  have b: "distinct (map depositTriple (deposits (snd (processBitcoinTransaction chain network btx s))))"
    using processBitcoinTransaction_unique [OF btc assms] by (simp add: btc)
  have again: "depositTriple row \<in> set (map depositTriple (deposits s)) \<longrightarrow>
            depositSave row s = (Some (Error ''duplicate key value violates unique constraint''), s)"
    by (simp add: depositSave_def)
  show ?thesis
    using processEvmTransaction_unique [OF assms, of chain network tx] b
      processTronBlock_unique [OF assms, of numberDivide tronWeb network block]
      processXrpTransaction_unique [OF assms, of chain network xtx] again
      processEvmTransaction_again [of chain network tx s] pass_triples [of p s]
    by blast
qed

theorem deposit_triples_stay_distinct_witness:
  "map depositTriple (deposits (processEvmTransaction ''eth'' ''mainnet'' nativeTx ethDb))
       = [(''0xh1'', ''w1'', ''t0'')]
   \<and> distinct (map depositTriple (deposits (processEvmTransaction ''eth'' ''mainnet'' nativeTx ethDb)))
   \<and> distinct (map depositTriple
        (deposits (processEvmTransaction ''eth'' ''mainnet'' nativeTx
                     (processEvmTransaction ''eth'' ''mainnet'' nativeTx ethDb))))
   \<and> map depositTriple
        (deposits (processEvmTransaction ''eth'' ''mainnet'' nativeTx
                     (processEvmTransaction ''eth'' ''mainnet'' nativeTx ethDb)))
       = [(''0xh1'', ''w1'', ''t0'')]
   \<and> depositSave (hd (deposits (processEvmTransaction ''eth'' ''mainnet'' nativeTx ethDb)))
         (processEvmTransaction ''eth'' ''mainnet'' nativeTx ethDb)
       = (Some (Error ''duplicate key value violates unique constraint''),
          processEvmTransaction ''eth'' ''mainnet'' nativeTx ethDb)"
proof -
  let ?s = "processEvmTransaction ''eth'' ''mainnet'' nativeTx ethDb"
  have t: "map depositTriple (deposits ?s) = [(''0xh1'', ''w1'', ''t0'')]"
    by (simp add: evm_eval)
  then have d: "distinct (map depositTriple (deposits ?s))"
    by simp
  note inst = deposit_triples_stay_distinct [OF d, where chain = "''eth''" and network = "''mainnet''"
      and tx = nativeTx and row = "hd (deposits ?s)"]
  from inst
  have d2: "distinct (map depositTriple (deposits (processEvmTransaction ''eth'' ''mainnet'' nativeTx ?s)))"
    by (rule conjunct1)
  have same: "map depositTriple (deposits (processEvmTransaction ''eth'' ''mainnet'' nativeTx ?s))
       = [(''0xh1'', ''w1'', ''t0'')]"
    by (simp add: evm_eval)
  have mem: "depositTriple (hd (deposits ?s)) \<in> set (map depositTriple (deposits ?s))"
    by (simp add: evm_eval)
  from inst mem
  have dup: "depositSave (hd (deposits ?s)) ?s
       = (Some (Error ''duplicate key value violates unique constraint''), ?s)"
    by blast
  show ?thesis
    by (intro conjI t d d2 same dup)
qed

section \<open>EVM blocks\<close>

lemma processEvmTransaction_appends:
  "\<exists>xs. deposits (processEvmTransaction chain network tx s) = deposits s @ xs"
  using processEvmTransaction_cases [of chain network tx s]
  by (auto simp: depositSave_def)

lemma processEvmTransaction_balances:
  "walletBalances (processEvmTransaction chain network tx s) = walletBalances s"
  using processEvmTransaction_cases [of chain network tx s]
  by (auto simp: depositSave_def)

lemma fold_invariant:
  assumes "\<And>x t. P t \<Longrightarrow> P (f x t)" and "P s"
  shows "P (fold f xs s)"
  using assms(2) by (induction xs arbitrary: s) (simp_all add: assms(1))

lemma processEvmBlock_appends:
  "(\<exists>xs. deposits (snd (processEvmBlock chain network blockNumber provider s)) = deposits s @ xs)
   \<and> walletBalances (snd (processEvmBlock chain network blockNumber provider s)) = walletBalances s"
proof (cases "evm_getBlock provider blockNumber")
  case (Throws e)
  then show ?thesis by (simp add: processEvmBlock_def)
next
  case Null
  then show ?thesis by (simp add: processEvmBlock_def)
next
  case (Reply block)
  let ?step = "\<lambda>txHash s'. case getEvmTransactionWithRetry provider txHash of
                       Inl e \<Rightarrow> s'
                     | Inr None \<Rightarrow> s'
                     | Inr (Some tx) \<Rightarrow> processEvmTransaction chain network tx s'"
  let ?P = "\<lambda>t. (\<exists>xs. deposits t = deposits s @ xs) \<and> walletBalances t = walletBalances s"
  have step: "?P (?step txHash t)" if "?P t" for txHash t
  proof (cases "getEvmTransactionWithRetry provider txHash")
    case (Inl a)
    with that show ?thesis by simp
  next
    case (Inr r)
    show ?thesis
    proof (cases r)
      case None
      with Inr that show ?thesis by simp
    next
      case (Some tx)
      from that obtain xs where xs: "deposits t = deposits s @ xs" by blast
      from processEvmTransaction_appends [of chain network tx t] obtain ys
        where "deposits (processEvmTransaction chain network tx t) = deposits t @ ys" by blast
      with xs have "deposits (processEvmTransaction chain network tx t) = deposits s @ (xs @ ys)"
        by simp
      with Inr Some that show ?thesis
        by (simp add: processEvmTransaction_balances)
    qed
  qed
  have "?P (fold ?step (eb_transactions block) s)"
    by (rule fold_invariant [where P = ?P]) (use step in simp_all)
  with Reply show ?thesis
    by (simp add: processEvmBlock_def saveLastProcessedBlock_eq)
qed

lemma ethDbAt1000_eq:
  "ethDbAt1000 =
     \<lparr>deposits = [\<lparr>d_id = 1, d_userId = ''U'', d_walletId = ''w1'', d_tokenId = ''t0'', d_txHash = ''0xh1'',
       d_amount = 1, d_blockchain = ''eth'', d_network = ''mainnet'', d_networkVersion = ''NATIVE'',
       d_blockNumber = Some 1000, d_status = ''pending'', d_confirmations = 0, d_from = ''0x1'',
       d_contractAddress = None, d_blockHash = ''0xb1''\<rparr>],
      depositSeq = 2, wallets = [ethWallet],
      tokens = [ethToken, usdcToken],
      walletBalances = [(''U'', ''ETH'', ''spot'') \<mapsto> 0, (''U'', ''USDC'', ''spot'') \<mapsto> 0],
      systemSettings = [checkpointKey ''eth'' ''mainnet'' \<mapsto> numberToString 1000]\<rparr>"
  by (simp add: ethDbAt1000_def processEvmBlock_def ethProvider_def getEvmTransactionWithRetry_def
      getEvmTransactionFrom.simps saveLastProcessedBlock_eq evm_eval)


text \<open>
  C3. Processing an EVM block never runs the confirmation updater: whatever the block
  holds, the rows that were in the deposits table are still there unchanged, in place,
  and no balance has moved. After block 1000 with a deposit was processed, processing
  block 1012 leaves the deposit \<open>pending\<close> with 0 confirmations and the balance at 0;
  \<open>updateEvmConfirmations\<close>, had it been called for height 1012, would have stored
  \<open>confirmed\<close> with 12 confirmations and credited the balance with 1.
\<close>

theorem evm_block_runs_no_updater:
  "take (length (deposits s)) (deposits (snd (processEvmBlock chain network blockNumber provider s)))
     = deposits s
   \<and> walletBalances (snd (processEvmBlock chain network blockNumber provider s)) = walletBalances s
   \<and> map (\<lambda>d. (d_blockNumber d, d_status d, d_confirmations d)) (deposits ethDbAt1000)
       = [(Some 1000, ''pending'', 0)]
   \<and> map (\<lambda>d. (d_status d, d_confirmations d))
        (deposits (snd (processEvmBlock ''eth'' ''mainnet'' 1012 ethProvider ethDbAt1000)))
       = [(''pending'', 0)]
   \<and> walletBalances (snd (processEvmBlock ''eth'' ''mainnet'' 1012 ethProvider ethDbAt1000))
        (''U'', ''ETH'', ''spot'') = Some 0
   \<and> map (\<lambda>d. (d_status d, d_confirmations d))
        (deposits (updateEvmConfirmations ''eth'' ''mainnet'' 1012 ethDbAt1000))
       = [(''confirmed'', 12)]
   \<and> walletBalances (updateEvmConfirmations ''eth'' ''mainnet'' 1012 ethDbAt1000)
        (''U'', ''ETH'', ''spot'') = Some 1"
proof -
  from processEvmBlock_appends [of chain network blockNumber provider s]
  obtain xs where "deposits (snd (processEvmBlock chain network blockNumber provider s)) = deposits s @ xs"
    by blast
  then have kept: "take (length (deposits s)) (deposits (snd (processEvmBlock chain network blockNumber provider s)))
     = deposits s"
    by simp
  have bal: "walletBalances (snd (processEvmBlock chain network blockNumber provider s)) = walletBalances s"
    using processEvmBlock_appends [of chain network blockNumber provider s] by blast
  have at1000: "map (\<lambda>d. (d_blockNumber d, d_status d, d_confirmations d)) (deposits ethDbAt1000)
       = [(Some 1000, ''pending'', 0)]"
    by (simp add: ethDbAt1000_eq)
  have blk: "processEvmBlock ''eth'' ''mainnet'' 1012 ethProvider ethDbAt1000 =
      (None, ethDbAt1000\<lparr>systemSettings := (systemSettings ethDbAt1000)
                 (checkpointKey ''eth'' ''mainnet'' \<mapsto> numberToString 1012)\<rparr>)"
    by (simp add: processEvmBlock_def ethProvider_def saveLastProcessedBlock_eq)
  have still: "map (\<lambda>d. (d_status d, d_confirmations d))
        (deposits (snd (processEvmBlock ''eth'' ''mainnet'' 1012 ethProvider ethDbAt1000)))
       = [(''pending'', 0)]"
    unfolding blk by (simp add: ethDbAt1000_eq)
  have still_bal: "walletBalances (snd (processEvmBlock ''eth'' ''mainnet'' 1012 ethProvider ethDbAt1000))
        (''U'', ''ETH'', ''spot'') = Some 0"
    unfolding blk by (simp add: ethDbAt1000_eq)
  have req: "(case CONFIRMATION_BLOCKS (getChainKey ''eth'') of
                  None \<Rightarrow> Inl (TypeError ''Cannot read properties of undefined'')
                | Some tbl \<Rightarrow> Inr (tbl ''mainnet'')) = Inr (Some 12)"
    by (simp add: getChainKey_def CHAIN_KEYS_def CONFIRMATION_BLOCKS_def)
  have upd: "map (\<lambda>d. (d_status d, d_confirmations d))
        (deposits (updateEvmConfirmations ''eth'' ''mainnet'' 1012 ethDbAt1000))
       = [(''confirmed'', 12)]"
    by (simp add: updateEvmConfirmations_def evmConfirmationLoop_def req ethDbAt1000_eq
        findPending_def confirmStep_def reaches_def depositUpdate_def updateWalletBalance_def
        balanceKey_def ethToken_def usdcToken_def decimalPlus_eval)
  have upd_bal: "walletBalances (updateEvmConfirmations ''eth'' ''mainnet'' 1012 ethDbAt1000)
        (''U'', ''ETH'', ''spot'') = Some 1"
    by (simp add: updateEvmConfirmations_def evmConfirmationLoop_def req ethDbAt1000_eq
        findPending_def confirmStep_def reaches_def depositUpdate_def updateWalletBalance_def
        balanceKey_def ethToken_def usdcToken_def decimalPlus_eval)
  show ?thesis
    by (intro conjI kept bal at1000 still still_bal upd upd_bal)
qed

section \<open>Stored amounts\<close>

text \<open>
  C6. A payment of 1000000 drops to a monitored XRP wallet is stored with the amount
  1000000, the raw \<open>Amount\<close>, where the token's 6 decimals give 1. The amount of a Tron
  transfer is what the division of double-precision numbers gives.
\<close>

theorem xrp_amount_stored_unscaled:
  "map d_amount (deposits (processXrpTransaction ''xrp'' ''mainnet'' xrpPayment xrpDb)) = [1000000]
   \<and> map t_decimals (tokens xrpDb) = [6]
   \<and> formatUnits 1000000 6 = 1
   \<and> map d_amount (deposits (processTronBlock numberDivide tronNode ''mainnet'' tronBlock7 tronDb))
       = [numberDivide 10000000 6]"
  by (simp add: processXrpTransaction_def getXrpTokenId_def findWallets_def depositSave_def
      xrpDb_def xrpPayment_def formatUnits_def processTronBlock_def processTronTransaction_def
      getTronToken_def tronDb_def tronBlock7_def tronNode_def trxToken_def)

section \<open>Batches\<close>

lemma bitcoinBatches_60: "bitcoinBatches 1 60 = [(1, 50), (51, 60)]"
  by (simp add: bitcoinBatches.simps batchSize_def)

lemma tronBatch_100: "tronBatch 0 100 = [1, 2, 3, 4, 5, 6]"
  by (simp add: tronBatch_def upto.simps)

lemma checkTronBlock_empty:
  "checkTronBlock numberDivide tronNode ''mainnet'' height (emptyDb\<lparr>systemSettings := m\<rparr>)
     = emptyDb\<lparr>systemSettings := m(checkpointKey ''trx'' ''mainnet'' \<mapsto> numberToString height)\<rparr>"
  by (simp add: checkTronBlock_def getTronBlockWithRetry_def getTronBlockFrom.simps tronNode_def
      processTronBlock_def updateTronConfirmations_def tronConfirmationLoop_eq findPending_def
      saveLastProcessedBlock_eq emptyDb_def)

lemma emptyDb_settings: "emptyDb = emptyDb\<lparr>systemSettings := Map.empty\<rparr>"
  by (simp add: emptyDb_def)

lemma tron_tick_six:
  "getLastProcessedBlock ''trx'' ''mainnet'' (checkTronBlocks numberDivide tronNode ''mainnet'' emptyDb) = Some 6"
proof -
  have start: "getLastProcessedBlock ''trx'' ''mainnet'' emptyDb = Some 0"
    by (simp add: getLastProcessedBlock_eq emptyDb_def)
  have "checkTronBlocks numberDivide tronNode ''mainnet'' emptyDb
      = fold (checkTronBlock numberDivide tronNode ''mainnet'') [1, 2, 3, 4, 5, 6] (emptyDb\<lparr>systemSettings := Map.empty\<rparr>)"
    using emptyDb_settings by (simp add: checkTronBlocks_def start tronBatch_100 tronNode_def)
  then show ?thesis
    by (simp add: checkTronBlock_empty getLastProcessedBlock_eq parseInt_numberToString)
qed

text \<open>
  With the last processed block at 0 and the tip at 60, the second window of the Bitcoin
  tick holds the 10 heights from 51 to 60. With the tip at 100, one Tron tick runs over
  the six heights 1 to 6 and moves the checkpoint to 6.
\<close>

theorem batch_sizes_counterexample:
  "bitcoinBatches (0 + 1) 60 = [(1, 50), (51, 60)]
   \<and> tronBatch 0 100 = [1, 2, 3, 4, 5, 6]
   \<and> getLastProcessedBlock ''trx'' ''mainnet'' emptyDb = Some 0
   \<and> getLastProcessedBlock ''trx'' ''mainnet''
        (checkTronBlocks (\<lambda>a d. of_int a / 10 ^ d) tronNode ''mainnet'' emptyDb) = Some 6"
  using bitcoinBatches_60 tronBatch_100 tron_tick_six [of "\<lambda>a d. of_int a / 10 ^ d"]
  by (simp add: getLastProcessedBlock_eq emptyDb_def)

section \<open>The windows of a Bitcoin tick\<close>

lemma bitcoinBatches_step:
  "height \<le> currentHeight \<Longrightarrow>
     bitcoinBatches height currentHeight =
       (height, min (height + 49) currentHeight) # bitcoinBatches (height + 50) currentHeight"
  by (subst bitcoinBatches.simps) (simp add: batchSize_def)

lemma bitcoinBatches_done:
  "\<not> height \<le> currentHeight \<Longrightarrow> bitcoinBatches height currentHeight = []"
  by (subst bitcoinBatches.simps) simp

lemma bitcoinBatches_bounds:
  "(a, b) \<in> set (bitcoinBatches height currentHeight) \<Longrightarrow>
     height \<le> a \<and> a \<le> b \<and> b \<le> currentHeight \<and> b - a + 1 \<le> 50"
proof (induction height currentHeight rule: bitcoinBatches.induct)
  case (1 height currentHeight)
  show ?case
  proof (cases "height \<le> currentHeight")
    case True
    with "1.prems" have "(a, b) = (height, min (height + 49) currentHeight)
        \<or> (a, b) \<in> set (bitcoinBatches (height + 50) currentHeight)"
      by (simp add: bitcoinBatches_step)
    then show ?thesis
    proof
      assume "(a, b) = (height, min (height + 49) currentHeight)"
      with True show ?thesis by auto
    next
      assume "(a, b) \<in> set (bitcoinBatches (height + 50) currentHeight)"
      with "1.IH" [OF True] show ?thesis by (simp add: batchSize_def)
    qed
  next
    case False
    with "1.prems" show ?thesis by (simp add: bitcoinBatches_done)
  qed
qed

lemma bitcoinBatches_full:
  "(a, b) \<in> set (butlast (bitcoinBatches height currentHeight)) \<Longrightarrow> b - a + 1 = 50"
proof (induction height currentHeight rule: bitcoinBatches.induct)
  case (1 height currentHeight)
  show ?case
  proof (cases "height \<le> currentHeight")
    case True
    note step = bitcoinBatches_step [OF True]
    show ?thesis
    proof (cases "bitcoinBatches (height + 50) currentHeight = []")
      case True
      with "1.prems" step show ?thesis by simp
    next
      case False
      then have more: "height + 50 \<le> currentHeight"
        using bitcoinBatches_done [of "height + 50" currentHeight] by auto
      from "1.prems" step False
      have "(a, b) = (height, min (height + 49) currentHeight)
          \<or> (a, b) \<in> set (butlast (bitcoinBatches (height + 50) currentHeight))"
        by simp
      then show ?thesis
      proof
        assume "(a, b) = (height, min (height + 49) currentHeight)"
        with more show ?thesis by auto
      next
        assume "(a, b) \<in> set (butlast (bitcoinBatches (height + 50) currentHeight))"
        with "1.IH" [OF True] show ?thesis by (simp add: batchSize_def)
      qed
    qed
  next
    case False
    with "1.prems" show ?thesis by (simp add: bitcoinBatches_done)
  qed
qed

lemma bitcoinBatches_cover:
  "concat (map (\<lambda>(a, b). [a..b]) (bitcoinBatches height currentHeight)) = [height..currentHeight]"
proof (induction height currentHeight rule: bitcoinBatches.induct)
  case (1 height currentHeight)
  show ?case
  proof (cases "height \<le> currentHeight")
    case True
    note step = bitcoinBatches_step [OF True]
    show ?thesis
    proof (cases "height + 49 \<le> currentHeight")
      case True
      have "[height..currentHeight] = [height..height + 49] @ [height + 49 + 1..currentHeight]"
        using True by (intro upto_split2) simp_all
      then have "[height..currentHeight] = [height..height + 49] @ [height + 50..currentHeight]"
        by (simp add: add.commute)
      then show ?thesis
        using "1.IH" [OF \<open>height \<le> currentHeight\<close>] True
        by (simp add: step batchSize_def min_def)
    next
      case False
      then have "bitcoinBatches (height + 50) currentHeight = []"
        by (simp add: bitcoinBatches_done)
      with False show ?thesis
        by (simp add: step min_def)
    qed
  next
    case False
    then show ?thesis by (simp add: bitcoinBatches_done)
  qed
qed

text \<open>The nested loops visit the heights of the gap one after the other.\<close>

lemma forEach_concat:
  "forEach (\<lambda>xs. forEach f xs) xss s = forEach f (concat xss) s"
  by (induction xss arbitrary: s) (auto simp: forEach_append split: prod.splits option.splits)

lemma forEach_batches:
  "forEach (\<lambda>(height, endBlock). forEach f [height..endBlock]) (bitcoinBatches a tip) s
     = forEach f [a..tip] s"
proof -
  have "forEach (\<lambda>(height, endBlock). forEach f [height..endBlock]) ws t
      = forEach (\<lambda>xs. forEach f xs) (map (\<lambda>(a, b). [a..b]) ws) t" for ws t
    by (induction ws arbitrary: t) (auto split: prod.splits option.splits)
  then show ?thesis
    by (simp add: forEach_concat bitcoinBatches_cover)
qed


text \<open>
  C8, as amended. One Bitcoin tick walks the gap from the last processed block to the
  tip in consecutive windows of at most 50 heights: every window but the last holds
  exactly 50, the windows together are the heights of the gap in order, and the tick
  visits these heights one after the other.
\<close>

theorem bitcoin_windows:
  "(\<forall>(a, b) \<in> set (bitcoinBatches (lastProcessedBlock + 1) currentHeight).
       lastProcessedBlock < a \<and> a \<le> b \<and> b \<le> currentHeight \<and> b - a + 1 \<le> 50)
   \<and> (\<forall>(a, b) \<in> set (butlast (bitcoinBatches (lastProcessedBlock + 1) currentHeight)). b - a + 1 = 50)
   \<and> concat (map (\<lambda>(a, b). [a..b]) (bitcoinBatches (lastProcessedBlock + 1) currentHeight))
       = [lastProcessedBlock + 1..currentHeight]
   \<and> (getLastProcessedBlock ''bitcoin'' network s = Some lastProcessedBlock \<longrightarrow>
        checkBitcoinRange network provider currentHeight s
          = forEach (checkBitcoinBlock network provider) [lastProcessedBlock + 1..currentHeight] s)"
proof (intro conjI impI)
  show "\<forall>(a, b) \<in> set (bitcoinBatches (lastProcessedBlock + 1) currentHeight).
       lastProcessedBlock < a \<and> a \<le> b \<and> b \<le> currentHeight \<and> b - a + 1 \<le> 50"
    using bitcoinBatches_bounds [of _ _ "lastProcessedBlock + 1" currentHeight] by fastforce
  show "\<forall>(a, b) \<in> set (butlast (bitcoinBatches (lastProcessedBlock + 1) currentHeight)). b - a + 1 = 50"
    using bitcoinBatches_full [of _ _ "lastProcessedBlock + 1" currentHeight] by auto
  show "concat (map (\<lambda>(a, b). [a..b]) (bitcoinBatches (lastProcessedBlock + 1) currentHeight))
       = [lastProcessedBlock + 1..currentHeight]"
    by (rule bitcoinBatches_cover)
  show "checkBitcoinRange network provider currentHeight s
          = forEach (checkBitcoinBlock network provider) [lastProcessedBlock + 1..currentHeight] s"
    if "getLastProcessedBlock ''bitcoin'' network s = Some lastProcessedBlock"
    using that by (simp add: checkBitcoinRange_def forEach_batches)
qed

theorem bitcoin_windows_witness:
  "bitcoinBatches (0 + 1) 60 = [(1, 50), (51, 60)]
   \<and> butlast (bitcoinBatches (0 + 1) 60) = [(1, 50)]
   \<and> (50::int) - 1 + 1 = 50 \<and> (60::int) - 51 + 1 \<le> 50
   \<and> getLastProcessedBlock ''bitcoin'' ''mainnet'' emptyDb = Some 0
   \<and> checkBitcoinRange ''mainnet'' gapNode 60 emptyDb
       = forEach (checkBitcoinBlock ''mainnet'' gapNode) [0 + 1..60] emptyDb"
proof -
  have w: "bitcoinBatches (0 + 1) 60 = [(1, 50), (51, 60)]"
    using bitcoinBatches_60 by simp
  have start: "getLastProcessedBlock ''bitcoin'' ''mainnet'' emptyDb = Some 0"
    by (simp add: getLastProcessedBlock_eq emptyDb_def)
  note inst = bitcoin_windows [of 0 60 "''mainnet''" emptyDb gapNode]
  from inst have "\<forall>(a, b) \<in> set (butlast (bitcoinBatches (0 + 1) 60)). b - a + 1 = 50"
    by blast
  then have full: "(50::int) - 1 + 1 = 50"
    by simp
  from inst have "\<forall>(a, b) \<in> set (bitcoinBatches (0 + 1) 60).
       0 < a \<and> a \<le> b \<and> b \<le> 60 \<and> b - a + 1 \<le> 50"
    by blast
  then have part: "(60::int) - 51 + 1 \<le> 50"
    by simp
  from inst start have flat: "checkBitcoinRange ''mainnet'' gapNode 60 emptyDb
       = forEach (checkBitcoinBlock ''mainnet'' gapNode) [0 + 1..60] emptyDb"
    by blast
  show ?thesis
    using w start full part flat by simp
qed

section \<open>Checkpoints and blocks that cannot be fetched\<close>

lemma depositSave_settings:
  "depositSave row s = (e, s') \<Longrightarrow> systemSettings s' = systemSettings s"
  by (auto simp: depositSave_def split: if_splits)

lemma processBitcoinAddress_settings:
  assumes "processBitcoinAddress chain network tx out address s = (e, s')"
  shows "systemSettings s' = systemSettings s"
proof -
  from processBitcoinAddress_cases [of chain network tx out address s]
  consider "s' = s" | row where "depositSave row s = (e, s')"
    using assms by auto
  then show ?thesis
    by cases (simp_all add: depositSave_settings)
qed

lemma processBitcoinTransaction_settings:
  assumes "processBitcoinTransaction chain network tx s = (e, s')"
  shows "systemSettings s' = systemSettings s"
proof (rule forEach_invariant [where P = "\<lambda>t. systemSettings t = systemSettings s"
      and xs = "btx_vout tx" and s = s and e = e
      and f = "\<lambda>out. forEach (processBitcoinAddress chain network tx out)
                    (case o_addresses out of Some as \<Rightarrow> as | None \<Rightarrow> [])"])
  show "systemSettings s = systemSettings s" by simp
  show "forEach (\<lambda>out. forEach (processBitcoinAddress chain network tx out)
                    (case o_addresses out of Some as \<Rightarrow> as | None \<Rightarrow> [])) (btx_vout tx) s = (e, s')"
    using assms by (simp add: processBitcoinTransaction_def)
  show "systemSettings t' = systemSettings s"
    if "out \<in> set (btx_vout tx)" and inv: "systemSettings t = systemSettings s"
      and run: "forEach (processBitcoinAddress chain network tx out)
                    (case o_addresses out of Some as \<Rightarrow> as | None \<Rightarrow> []) t = (e', t')"
    for out t e' t'
  proof (rule forEach_invariant [where P = "\<lambda>t. systemSettings t = systemSettings s"
      and f = "processBitcoinAddress chain network tx out" and s = t and e = e'
      and xs = "case o_addresses out of Some as \<Rightarrow> as | None \<Rightarrow> []"])
    show "systemSettings t = systemSettings s" by (rule inv)
    show "forEach (processBitcoinAddress chain network tx out)
            (case o_addresses out of Some as \<Rightarrow> as | None \<Rightarrow> []) t = (e', t')" by (rule run)
    show "systemSettings u' = systemSettings s"
      if "a \<in> set (case o_addresses out of Some as \<Rightarrow> as | None \<Rightarrow> [])"
        and "systemSettings u = systemSettings s"
        and "processBitcoinAddress chain network tx out a u = (e'', u')"
      for a u e'' u'
      using processBitcoinAddress_settings [OF that(3)] that(2) by simp
  qed
qed

lemma processBitcoinBlock_settings:
  assumes "processBitcoinBlock chain network block s = (e, s')"
  shows "systemSettings s' = systemSettings s
       \<or> (e = None \<and> systemSettings s' =
             (systemSettings s)(checkpointKey chain network \<mapsto> numberToString (bb_height block)))"
proof (cases "bb_tx block")
  case None
  with assms show ?thesis by (simp add: processBitcoinBlock_def)
next
  case (Some txs)
  obtain e1 s1 where run: "forEach (processBitcoinTransaction chain network) txs s = (e1, s1)"
    by (cases "forEach (processBitcoinTransaction chain network) txs s")
  have s1: "systemSettings s1 = systemSettings s"
  proof (rule forEach_invariant [where P = "\<lambda>t. systemSettings t = systemSettings s"
        and f = "processBitcoinTransaction chain network" and xs = txs and s = s and e = e1])
    show "systemSettings s = systemSettings s" by simp
    show "forEach (processBitcoinTransaction chain network) txs s = (e1, s1)" by (rule run)
    show "systemSettings t' = systemSettings s"
      if "tx \<in> set txs" and "systemSettings t = systemSettings s"
        and "processBitcoinTransaction chain network tx t = (e', t')"
      for tx t e' t'
      using processBitcoinTransaction_settings [OF that(3)] that(2) by simp
  qed
  show ?thesis
  proof (cases e1)
    case None
    with assms Some run s1 show ?thesis
      by (auto simp: processBitcoinBlock_def saveLastProcessedBlock_eq)
  next
    case (Some a)
    with assms \<open>bb_tx block = Some txs\<close> run s1 show ?thesis
      by (auto simp: processBitcoinBlock_def)
  qed
qed

text \<open>While the loop is below the failing height, the checkpoint stays below it.\<close>

lemma checkBitcoinBlock_below:
  assumes step: "checkBitcoinBlock network provider n s = (e, s')"
    and wf: "\<forall>n block. btc_getBlock provider n = Reply block \<longrightarrow> bb_height block = n"
    and n: "lo < n" "n < H"
    and inv: "\<exists>c. getLastProcessedBlock ''bitcoin'' network s = Some c \<and> lo \<le> c \<and> c < H"
  shows "\<exists>c. getLastProcessedBlock ''bitcoin'' network s' = Some c \<and> lo \<le> c \<and> c < H"
proof (cases "btc_getBlock provider n")
  case (Throws a)
  with step inv show ?thesis by (simp add: checkBitcoinBlock_def)
next
  case Null
  with step inv show ?thesis by (simp add: checkBitcoinBlock_def)
next
  case (Reply block)
  with wf have h: "bb_height block = n" by simp
  from Reply step have "processBitcoinBlock ''bitcoin'' network block s = (e, s')"
    by (simp add: checkBitcoinBlock_def)
  from processBitcoinBlock_settings [OF this]
  show ?thesis
  proof
    assume "systemSettings s' = systemSettings s"
    with inv show ?thesis by (simp add: getLastProcessedBlock_eq)
  next
    assume "e = None \<and> systemSettings s' =
             (systemSettings s)(checkpointKey ''bitcoin'' network \<mapsto> numberToString (bb_height block))"
    then have "getLastProcessedBlock ''bitcoin'' network s' = Some n"
      by (simp add: getLastProcessedBlock_eq parseInt_numberToString h)
    with n show ?thesis by simp
  qed
qed

lemma checkBitcoinLoop_below:
  assumes run: "forEach (checkBitcoinBlock network provider) ns s = (e, s')"
    and wf: "\<forall>n block. btc_getBlock provider n = Reply block \<longrightarrow> bb_height block = n"
    and ns: "\<forall>n \<in> set ns. lo < n \<and> n < H"
    and inv: "\<exists>c. getLastProcessedBlock ''bitcoin'' network s = Some c \<and> lo \<le> c \<and> c < H"
  shows "\<exists>c. getLastProcessedBlock ''bitcoin'' network s' = Some c \<and> lo \<le> c \<and> c < H"
proof (rule forEach_invariant [where f = "checkBitcoinBlock network provider" and xs = ns
      and s = s and e = e
      and P = "\<lambda>t. \<exists>c. getLastProcessedBlock ''bitcoin'' network t = Some c \<and> lo \<le> c \<and> c < H"])
  show "forEach (checkBitcoinBlock network provider) ns s = (e, s')" by (rule run)
  show "\<exists>c. getLastProcessedBlock ''bitcoin'' network s = Some c \<and> lo \<le> c \<and> c < H" by (rule inv)
  show "\<exists>c. getLastProcessedBlock ''bitcoin'' network t' = Some c \<and> lo \<le> c \<and> c < H"
    if "n \<in> set ns"
      and "\<exists>c. getLastProcessedBlock ''bitcoin'' network t = Some c \<and> lo \<le> c \<and> c < H"
      and "checkBitcoinBlock network provider n t = (e', t')"
    for n t e' t'
    using checkBitcoinBlock_below [OF that(3) wf _ _ that(2)] ns that(1) by blast
qed

text \<open>
  C5, as amended. In a Bitcoin tick, let the fetch of the block at height \<open>H\<close> of the gap
  throw, with a node whose blocks carry the height asked for. Then the tick ends with an
  error, and the checkpoint it leaves is at or above the one before and below \<open>H\<close>.
\<close>

theorem bitcoin_fetch_error_not_passed:
  assumes tip: "btc_getBlockHeight provider = Reply currentHeight"
    and last: "getLastProcessedBlock ''bitcoin'' network s = Some lastProcessedBlock"
    and gap: "lastProcessedBlock < H" "H \<le> currentHeight"
    and fails: "btc_getBlock provider H = Throws e"
    and wf: "\<forall>n block. btc_getBlock provider n = Reply block \<longrightarrow> bb_height block = n"
  shows "\<exists>c. fst (checkBitcoinBlocks network (Some provider) s) \<noteq> None
           \<and> getLastProcessedBlock ''bitcoin'' network (snd (checkBitcoinBlocks network (Some provider) s)) = Some c
           \<and> lastProcessedBlock \<le> c \<and> c < H"
proof -
  let ?f = "checkBitcoinBlock network provider"
  let ?P = "\<lambda>t. \<exists>c. getLastProcessedBlock ''bitcoin'' network t = Some c \<and> lastProcessedBlock \<le> c \<and> c < H"
  have tick: "checkBitcoinBlocks network (Some provider) s
      = forEach ?f [lastProcessedBlock + 1..currentHeight] s"
    by (simp add: checkBitcoinBlocks_def tip checkBitcoinRange_def last forEach_batches)
  have split: "[lastProcessedBlock + 1..currentHeight]
      = [lastProcessedBlock + 1..H - 1] @ H # [H + 1..currentHeight]"
    using gap by (intro upto_split3) simp_all
  obtain e1 s1 where pre: "forEach ?f [lastProcessedBlock + 1..H - 1] s = (e1, s1)"
    by (cases "forEach ?f [lastProcessedBlock + 1..H - 1] s")
  have P0: "?P s" using last gap by simp
  have P1: "?P s1"
    by (rule checkBitcoinLoop_below [OF pre wf _ P0]) auto
  show ?thesis
  proof (cases e1)
    case (Some a)
    with pre have "checkBitcoinBlocks network (Some provider) s = (Some a, s1)"
      by (simp add: tick split forEach_append)
    with P1 show ?thesis by simp
  next
    case None
    have "?f H s1 = (Some e, s1)"
      by (simp add: checkBitcoinBlock_def fails)
    with None pre have "checkBitcoinBlocks network (Some provider) s = (Some e, s1)"
      by (simp add: tick split forEach_append)
    with P1 show ?thesis by simp
  qed
qed


lemma empty_block_settings:
  "checkBitcoinBlock network provider n (emptyDb\<lparr>systemSettings := m\<rparr>) =
     (case btc_getBlock provider n of
        Throws e \<Rightarrow> (Some e, emptyDb\<lparr>systemSettings := m\<rparr>)
      | Null \<Rightarrow> (None, emptyDb\<lparr>systemSettings := m\<rparr>)
      | Reply block \<Rightarrow>
          (case bb_tx block of
             None \<Rightarrow> (None, emptyDb\<lparr>systemSettings := m\<rparr>)
           | Some txs \<Rightarrow>
               if txs = []
               then (None, emptyDb\<lparr>systemSettings :=
                       m(checkpointKey ''bitcoin'' network \<mapsto> numberToString (bb_height block))\<rparr>)
               else processBitcoinBlock ''bitcoin'' network block (emptyDb\<lparr>systemSettings := m\<rparr>)))"
  by (simp add: checkBitcoinBlock_def processBitcoinBlock_def saveLastProcessedBlock_eq emptyDb_def
      split: reply.splits option.splits)

lemma gap_tick:
  "checkBitcoinBlocks ''mainnet'' (Some gapNode) emptyDb =
     (None, emptyDb\<lparr>systemSettings := [checkpointKey ''bitcoin'' ''mainnet'' \<mapsto> numberToString 3]\<rparr>)"
proof -
  have start: "getLastProcessedBlock ''bitcoin'' ''mainnet'' emptyDb = Some 0"
    by (simp add: getLastProcessedBlock_eq emptyDb_def)
  have tip: "btc_getBlockHeight gapNode = Reply 3"
    by (simp add: gapNode_def)
  have heights: "[0 + 1..3] = [1, 2, 3::int]"
    by (simp add: upto.simps)
  have "checkBitcoinBlocks ''mainnet'' (Some gapNode) emptyDb
      = forEach (checkBitcoinBlock ''mainnet'' gapNode) [0 + 1..3] emptyDb"
    by (simp add: checkBitcoinBlocks_def tip checkBitcoinRange_def start forEach_batches)
  also have "\<dots> = forEach (checkBitcoinBlock ''mainnet'' gapNode) [1, 2, 3] (emptyDb\<lparr>systemSettings := Map.empty\<rparr>)"
    using emptyDb_settings by (simp only: heights)
  also have "\<dots> = (None, emptyDb\<lparr>systemSettings := [checkpointKey ''bitcoin'' ''mainnet'' \<mapsto> numberToString 3]\<rparr>)"
    by (simp add: empty_block_settings gapNode_def)
  finally show ?thesis .
qed

lemma failing_tick:
  "checkBitcoinBlocks ''mainnet'' (Some failingNode) emptyDb =
     (Some (Error ''Bitcoin RPC error''),
      emptyDb\<lparr>systemSettings := [checkpointKey ''bitcoin'' ''mainnet'' \<mapsto> numberToString 1]\<rparr>)"
proof -
  have start: "getLastProcessedBlock ''bitcoin'' ''mainnet'' emptyDb = Some 0"
    by (simp add: getLastProcessedBlock_eq emptyDb_def)
  have tip: "btc_getBlockHeight failingNode = Reply 3"
    by (simp add: failingNode_def)
  have heights: "[0 + 1..3] = [1, 2, 3::int]"
    by (simp add: upto.simps)
  have "checkBitcoinBlocks ''mainnet'' (Some failingNode) emptyDb
      = forEach (checkBitcoinBlock ''mainnet'' failingNode) [0 + 1..3] emptyDb"
    by (simp add: checkBitcoinBlocks_def tip checkBitcoinRange_def start forEach_batches)
  also have "\<dots> = forEach (checkBitcoinBlock ''mainnet'' failingNode) [1, 2, 3] (emptyDb\<lparr>systemSettings := Map.empty\<rparr>)"
    using emptyDb_settings by (simp only: heights)
  also have "\<dots> = (Some (Error ''Bitcoin RPC error''), emptyDb\<lparr>systemSettings := [checkpointKey ''bitcoin'' ''mainnet'' \<mapsto> numberToString 1]\<rparr>)"
    by (simp add: empty_block_settings failingNode_def)
  finally show ?thesis .
qed

lemma xrp_tick:
  "checkXrpBlocks ''mainnet'' (Some failingLedger) emptyDb =
     emptyDb\<lparr>systemSettings := [checkpointKey ''xrp'' ''mainnet'' \<mapsto> numberToString 1]\<rparr>"
proof -
  have start: "getLastProcessedBlock ''xrp'' ''mainnet'' emptyDb = Some 0"
    by (simp add: getLastProcessedBlock_eq emptyDb_def)
  have info: "xrp_serverInfo failingLedger = Reply 1"
    by (simp add: failingLedger_def)
  have heights: "[0 + 1..1] = [1::int]"
    by (simp add: upto.simps)
  have "checkXrpBlocks ''mainnet'' (Some failingLedger) emptyDb
      = snd (forEach (checkXrpLedger ''mainnet'' failingLedger) [0 + 1..1] emptyDb)"
    by (simp add: checkXrpBlocks_def info start)
  also have "\<dots> = snd (forEach (checkXrpLedger ''mainnet'' failingLedger) [1] emptyDb)"
    by (simp only: heights)
  also have "\<dots> = emptyDb\<lparr>systemSettings := [checkpointKey ''xrp'' ''mainnet'' \<mapsto> numberToString 1]\<rparr>"
    by (simp add: checkXrpLedger_def processXrpLedger_def failingLedger_def saveLastProcessedBlock_eq
        emptyDb_def)
  finally show ?thesis .
qed

text \<open>
  A Bitcoin node without block 1: the tick skips height 1, processes 2 and 3 and leaves
  the checkpoint at 3. An XRP node whose request for ledger 1 throws: the tick saves 1 as
  the checkpoint all the same.
\<close>

theorem checkpoint_skips_counterexample:
  "getLastProcessedBlock ''bitcoin'' ''mainnet'' emptyDb = Some 0
   \<and> btc_getBlock gapNode 1 = Null
   \<and> fst (checkBitcoinBlocks ''mainnet'' (Some gapNode) emptyDb) = None
   \<and> getLastProcessedBlock ''bitcoin'' ''mainnet'' (snd (checkBitcoinBlocks ''mainnet'' (Some gapNode) emptyDb))
       = Some 3
   \<and> getLastProcessedBlock ''xrp'' ''mainnet'' emptyDb = Some 0
   \<and> xrp_ledger failingLedger 1 = Throws (Error ''timeout'')
   \<and> getLastProcessedBlock ''xrp'' ''mainnet'' (checkXrpBlocks ''mainnet'' (Some failingLedger) emptyDb)
       = Some 1"
proof -
  have a: "getLastProcessedBlock ''bitcoin'' ''mainnet'' emptyDb = Some 0"
    "getLastProcessedBlock ''xrp'' ''mainnet'' emptyDb = Some 0"
    by (simp_all add: getLastProcessedBlock_eq emptyDb_def)
  have b: "btc_getBlock gapNode 1 = Null" "xrp_ledger failingLedger 1 = Throws (Error ''timeout'')"
    by (simp_all add: gapNode_def failingLedger_def)
  have c: "getLastProcessedBlock ''bitcoin'' ''mainnet'' (snd (checkBitcoinBlocks ''mainnet'' (Some gapNode) emptyDb))
       = Some 3"
    by (simp add: gap_tick getLastProcessedBlock_eq parseInt_numberToString)
  have d: "getLastProcessedBlock ''xrp'' ''mainnet'' (checkXrpBlocks ''mainnet'' (Some failingLedger) emptyDb)
       = Some 1"
    by (simp add: xrp_tick getLastProcessedBlock_eq parseInt_numberToString)
  show ?thesis
    using a b c d by (simp add: gap_tick)
qed

theorem bitcoin_fetch_error_not_passed_witness:
  "btc_getBlockHeight failingNode = Reply 3
   \<and> getLastProcessedBlock ''bitcoin'' ''mainnet'' emptyDb = Some 0
   \<and> (0::int) < 2 \<and> (2::int) \<le> 3
   \<and> btc_getBlock failingNode 2 = Throws (Error ''Bitcoin RPC error'')
   \<and> (\<exists>c. fst (checkBitcoinBlocks ''mainnet'' (Some failingNode) emptyDb) \<noteq> None
           \<and> getLastProcessedBlock ''bitcoin'' ''mainnet''
                (snd (checkBitcoinBlocks ''mainnet'' (Some failingNode) emptyDb)) = Some c
           \<and> 0 \<le> c \<and> c < 2)
   \<and> getLastProcessedBlock ''bitcoin'' ''mainnet''
        (snd (checkBitcoinBlocks ''mainnet'' (Some failingNode) emptyDb)) = Some 1"
proof -
  have tip: "btc_getBlockHeight failingNode = Reply 3"
    by (simp add: failingNode_def)
  have last: "getLastProcessedBlock ''bitcoin'' ''mainnet'' emptyDb = Some 0"
    by (simp add: getLastProcessedBlock_eq emptyDb_def)
  have gap: "(0::int) < 2" "(2::int) \<le> 3" by simp_all
  have fails: "btc_getBlock failingNode 2 = Throws (Error ''Bitcoin RPC error'')"
    by (simp add: failingNode_def)
  have wf: "\<forall>n block. btc_getBlock failingNode n = Reply block \<longrightarrow> bb_height block = n"
    by (auto simp: failingNode_def split: if_splits)
  note inst = bitcoin_fetch_error_not_passed [OF tip last gap fails wf]
  have one: "getLastProcessedBlock ''bitcoin'' ''mainnet''
        (snd (checkBitcoinBlocks ''mainnet'' (Some failingNode) emptyDb)) = Some 1"
    by (simp add: failing_tick getLastProcessedBlock_eq parseInt_numberToString)
  show ?thesis
    by (intro conjI tip last gap fails inst one)
qed

end
